theory Spec2Isabelle
  imports Main "HOL-Library.Word"
begin

unbundle bit_operations_syntax

section \<open>The small-string buffer engine of smallstring.hpp\<close>

text \<open>
  The development follows \<^verbatim>\<open>src/include/smallstring.hpp\<close> for
  \<^verbatim>\<open>Char = char\<close>, \<^verbatim>\<open>Core = malloc_core\<close>, the default growth factor
  \<^verbatim>\<open>1.5F\<close> and the default \<^verbatim>\<open>Safe = true\<close>. The template parameter
  \<^verbatim>\<open>NullTerminated\<close> is the first argument \<open>nt\<close> of every function that depends on it.

  Sizes are natural numbers; every place where the source computes in \<^verbatim>\<open>uint32_t\<close>
  (\<^verbatim>\<open>size_type\<close>), in \<^verbatim>\<open>size_t\<close> or in a bit-field has its wrap-around written out.
  The build modelled is the one with \<^verbatim>\<open>NDEBUG\<close>: an \<^verbatim>\<open>Assert\<close> executes nothing.
  What is undefined behaviour in that build (a store outside the allocated block, a header
  access through a dead pointer, \<^verbatim>\<open>__builtin_unreachable()\<close>) is the error value
  \<open>MemoryFault\<close>; a thrown \<^verbatim>\<open>std::out_of_range\<close> is \<open>OutOfRange\<close>.
\<close>

subsection \<open>Unsigned arithmetic\<close>

definition u32 :: "nat \<Rightarrow> nat" where
  "u32 n = n mod 2 ^ 32"

text \<open>\<open>a - b\<close> on \<^verbatim>\<open>uint32_t\<close> (or on \<^verbatim>\<open>size_t\<close>, truncated to 32 bits afterwards).\<close>

definition sub32 :: "nat \<Rightarrow> nat \<Rightarrow> nat" where
  "sub32 a b = (a + 2 ^ 32 - b mod 2 ^ 32) mod 2 ^ 32"

text \<open>\<^verbatim>\<open>AlignUpTo<N>(n) = (n + N - 1) & static_cast<uint64_t>(-N)\<close> on \<^verbatim>\<open>uint64_t\<close>.\<close>

definition AlignUpTo :: "nat \<Rightarrow> nat \<Rightarrow> nat" where
  "AlignUpTo N n = ((n + N - 1) mod 2 ^ 64) AND ((2 ^ 64 - N) mod 2 ^ 64)"

subsection \<open>The growth factor\<close>

text \<open>
  \<^verbatim>\<open>calculate_new_buffer_size(size, growth)\<close> evaluates \<^verbatim>\<open>size * growth\<close> with
  \<^verbatim>\<open>size\<close> a \<^verbatim>\<open>size_t\<close> and \<^verbatim>\<open>growth\<close> the \<^verbatim>\<open>float\<close> 1.5: the size is converted
  to single precision (24 significant bits, round to nearest, ties to even), the product is
  rounded the same way, and the result is truncated to \<^verbatim>\<open>size_t\<close>. All three steps are
  exact on integers: \<open>round_float24\<close> rounds a natural number to 24 significant bits, and
  the product of a float \<open>f\<close> with 1.5 is \<open>3 * f / 2\<close>.
\<close>

fun bit_length :: "nat \<Rightarrow> nat" where
  "bit_length n = (if n = 0 then 0 else Suc (bit_length (n div 2)))"

declare bit_length.simps [simp del]

definition round_float24 :: "nat \<Rightarrow> nat" where
  "round_float24 m =
     (if m < 2 ^ 24 then m
      else let k = bit_length m - 24; q = m div 2 ^ k; r = m mod 2 ^ k
           in (if 2 * r > 2 ^ k \<or> (2 * r = 2 ^ k \<and> odd q) then q + 1 else q) * 2 ^ k)"

definition growth_scale :: "nat \<Rightarrow> nat" where
  "growth_scale n = round_float24 (3 * round_float24 n) div 2"

subsection \<open>Storage tiers and the tier selector\<close>

datatype CoreType = Internal | Short | Median | Long

text \<open>The enumerators' values, \<^verbatim>\<open>kIsInternal\<close> to \<^verbatim>\<open>kIsLong\<close>.\<close>

fun core_type_value :: "CoreType \<Rightarrow> nat" where
  "core_type_value Internal = 0"
| "core_type_value Short = 1"
| "core_type_value Median = 2"
| "core_type_value Long = 3"

record buffer_type_and_size =
  buffer_size :: nat
  core_type :: CoreType

definition internal_buffer_size :: "bool \<Rightarrow> nat" where
  "internal_buffer_size nt = (if nt then 8 - 2 else 8 - 1)"

definition median_long_buffer_header_size :: "bool \<Rightarrow> nat" where
  "median_long_buffer_header_size nt = (if nt then 8 + 1 else 8)"

definition max_short_buffer_size :: "bool \<Rightarrow> nat" where
  "max_short_buffer_size nt = (if nt then 255 else 256)"

definition max_median_buffer_size :: nat where
  "max_median_buffer_size = 2 ^ 14 - 1"

definition max_long_buffer_size :: "bool \<Rightarrow> nat" where
  "max_long_buffer_size nt = (2 ^ 32 - 1) - median_long_buffer_header_size nt"

text \<open>
  \<^verbatim>\<open>calculate_new_buffer_size(size_t size)\<close>. The argument is a \<^verbatim>\<open>size_t\<close>; the
  aligned size is cast to \<^verbatim>\<open>size_type\<close>. The source asserts
  \<^verbatim>\<open>size <= max_long_buffer_size()\<close> before the last branch.
\<close>

definition calculate_new_buffer_size :: "bool \<Rightarrow> nat \<Rightarrow> buffer_type_and_size" where
  "calculate_new_buffer_size nt sz =
     (if sz \<le> internal_buffer_size nt then
        \<lparr>buffer_size = internal_buffer_size nt, core_type = Internal\<rparr>
      else if sz \<le> max_short_buffer_size nt then
        (if nt then \<lparr>buffer_size = u32 (AlignUpTo 8 (sz + 1)), core_type = Short\<rparr>
         else \<lparr>buffer_size = u32 (AlignUpTo 8 sz), core_type = Short\<rparr>)
      else if sz \<le> max_median_buffer_size then
        \<lparr>buffer_size = u32 (AlignUpTo 8 ((sz + median_long_buffer_header_size nt) mod 2 ^ 64)),
         core_type = Median\<rparr>
      else
        \<lparr>buffer_size = u32 (AlignUpTo 8 ((sz + median_long_buffer_header_size nt) mod 2 ^ 64)),
         core_type = Long\<rparr>)"

text \<open>\<^verbatim>\<open>calculate_new_buffer_size(size_t size, float growth)\<close> at \<^verbatim>\<open>growth = 1.5F\<close>.\<close>

definition calculate_new_buffer_size_growth :: "bool \<Rightarrow> nat \<Rightarrow> buffer_type_and_size" where
  "calculate_new_buffer_size_growth nt sz = calculate_new_buffer_size nt (growth_scale sz)"


subsection \<open>Errors\<close>

datatype error = OutOfRange | MemoryFault

definition bindE :: "error + 'a \<Rightarrow> ('a \<Rightarrow> error + 'b) \<Rightarrow> error + 'b" where
  "bindE m f = (case m of Inl e \<Rightarrow> Inl e | Inr x \<Rightarrow> f x)"

subsection \<open>The heap\<close>

text \<open>
  An allocation is a \<open>block\<close>: the number of bytes \<^verbatim>\<open>malloc\<close> was asked for, the
  \<^verbatim>\<open>capacity_and_size<uint32_t>\<close> header that a Median or Long buffer keeps in its
  first 8 bytes, and the characters, indexed from \<^verbatim>\<open>c_str_ptr\<close> (the start of the block
  for a Short buffer, 8 bytes after it for Median and Long). The heap maps the address
  \<^verbatim>\<open>malloc\<close> returned to the block; \<open>fresh\<close> is what uninitialised memory holds, so
  that nothing proved below depends on it. Addresses are abstract: \<^verbatim>\<open>malloc\<close> is taken
  to succeed and to return addresses that fit the 48-bit pointer field.
\<close>

type_synonym byte = "8 word"

record block =
  blk_size :: nat
  hdr_capacity :: nat
  hdr_size :: nat
  chars :: "nat \<Rightarrow> byte"

record heap =
  cells :: "nat \<Rightarrow> block option"
  next_free :: nat
  fresh :: block

definition malloc :: "heap \<Rightarrow> nat \<Rightarrow> nat \<times> heap" where
  "malloc h n =
     (next_free h,
      h\<lparr>cells := (cells h)(next_free h \<mapsto> (fresh h)\<lparr>blk_size := n\<rparr>),
        next_free := next_free h + n + 16\<rparr>)"

definition free :: "heap \<Rightarrow> nat \<Rightarrow> heap" where
  "free h p = h\<lparr>cells := (cells h)(p := None)\<rparr>"

text \<open>A block read through a pointer; a dead pointer reads uninitialised memory.\<close>

definition block_at :: "heap \<Rightarrow> nat \<Rightarrow> block" where
  "block_at h p = (case cells h p of Some b \<Rightarrow> b | None \<Rightarrow> fresh h)"

text \<open>
  \<open>write_range g off n f\<close>: the bytes \<open>f 0, ..., f (n - 1)\<close> stored at offsets
  \<open>off, ..., off + n - 1\<close> of \<open>g\<close> (\<^verbatim>\<open>memcpy\<close>, \<^verbatim>\<open>memmove\<close>, \<^verbatim>\<open>memset\<close>, or one
  assignment when \<open>n = 1\<close>).
\<close>

definition write_range :: "(nat \<Rightarrow> byte) \<Rightarrow> nat \<Rightarrow> nat \<Rightarrow> (nat \<Rightarrow> byte) \<Rightarrow> nat \<Rightarrow> byte" where
  "write_range g off n f = (\<lambda>i. if off \<le> i \<and> i < off + n then f (i - off) else g i)"

text \<open>
  A store of \<open>n\<close> bytes at character offset \<open>off\<close> of the block at \<open>p\<close>, whose characters
  start \<open>doff\<close> bytes into the block. It faults outside the allocation.
\<close>

definition store_block ::
  "heap \<Rightarrow> nat \<Rightarrow> nat \<Rightarrow> nat \<Rightarrow> nat \<Rightarrow> (nat \<Rightarrow> byte) \<Rightarrow> error + heap" where
  "store_block h p doff off n f =
     (case cells h p of
        None \<Rightarrow> Inl MemoryFault
      | Some b \<Rightarrow>
          if doff + off + n \<le> blk_size b
          then Inr (h\<lparr>cells := (cells h)(p \<mapsto> b\<lparr>chars := write_range (chars b) off n f\<rparr>)\<rparr>)
          else Inl MemoryFault)"

text \<open>\<^verbatim>\<open>head->capacity = c; head->size = s\<close> on the block at \<open>p\<close>.\<close>

definition write_header :: "heap \<Rightarrow> nat \<Rightarrow> nat \<Rightarrow> nat \<Rightarrow> error + heap" where
  "write_header h p c s =
     (case cells h p of
        None \<Rightarrow> Inl MemoryFault
      | Some b \<Rightarrow>
          if 8 \<le> blk_size b
          then Inr (h\<lparr>cells := (cells h)(p \<mapsto> b\<lparr>hdr_capacity := c, hdr_size := s\<rparr>)\<rparr>)
          else Inl MemoryFault)"

subsection \<open>The 8-byte core\<close>

text \<open>
  \<^verbatim>\<open>malloc_core\<close> is a union of \<^verbatim>\<open>internal_core\<close> and \<^verbatim>\<open>external_core\<close> whose top
  two bits are the tier flag. Each tier is a constructor with the bit-fields the tier uses:
  \<^verbatim>\<open>data[7]\<close> and the 6-bit \<^verbatim>\<open>internal_size\<close>; the pointer with the 5-bit \<^verbatim>\<open>cap\<close>
  and the 9-bit \<^verbatim>\<open>size\<close>; the pointer with the 14-bit \<^verbatim>\<open>idle_or_ignore\<close>. A value
  stored into a field is reduced to the field's width at the store. The all-zero body is
  \<open>zero_core\<close>.
\<close>

datatype malloc_core =
    InternalCore (data: "nat \<Rightarrow> byte") (internal_size: nat)
  | ShortCore (c_str_ptr: nat) (cap: nat) (short_size: nat)
  | MedianCore (c_str_ptr: nat) (idle_or_ignore: nat)
  | LongCore (c_str_ptr: nat) (idle_or_ignore: nat)

type_synonym sstate = "heap \<times> malloc_core"

definition zero_core :: malloc_core where
  "zero_core = InternalCore (\<lambda>_. 0) 0"

fun get_core_type :: "malloc_core \<Rightarrow> nat" where
  "get_core_type (InternalCore d s) = 0"
| "get_core_type (ShortCore p c s) = 1"
| "get_core_type (MedianCore p i) = 2"
| "get_core_type (LongCore p i) = 3"

definition is_external :: "malloc_core \<Rightarrow> bool" where
  "is_external c = (get_core_type c \<noteq> 0)"

text \<open>\<^verbatim>\<open>external_core::get_buffer_ptr\<close>; the source asserts that the core is external.\<close>

fun get_buffer_ptr :: "malloc_core \<Rightarrow> nat" where
  "get_buffer_ptr (InternalCore d s) = 0"
| "get_buffer_ptr (ShortCore p c s) = p"
| "get_buffer_ptr (MedianCore p i) = p - 8"
| "get_buffer_ptr (LongCore p i) = p - 8"

text \<open>Where the characters start inside the block.\<close>

fun data_offset :: "malloc_core \<Rightarrow> nat" where
  "data_offset (ShortCore p c s) = 0"
| "data_offset c = 8"

definition header :: "heap \<Rightarrow> malloc_core \<Rightarrow> block" where
  "header h c = block_at h (c_str_ptr c - 8)"

definition capacity_from_buffer_header :: "heap \<Rightarrow> malloc_core \<Rightarrow> nat" where
  "capacity_from_buffer_header h c = hdr_capacity (header h c)"

definition size_from_buffer_header :: "heap \<Rightarrow> malloc_core \<Rightarrow> nat" where
  "size_from_buffer_header h c = hdr_size (header h c)"

definition max_real_cap_from_buffer_header :: "bool \<Rightarrow> heap \<Rightarrow> malloc_core \<Rightarrow> nat" where
  "max_real_cap_from_buffer_header nt h c =
     (if nt then sub32 (capacity_from_buffer_header h c) (1 + 8)
      else sub32 (capacity_from_buffer_header h c) 8)"

definition set_size_to_buffer_header :: "heap \<Rightarrow> malloc_core \<Rightarrow> nat \<Rightarrow> error + heap" where
  "set_size_to_buffer_header h c new_size =
     (case cells h (c_str_ptr c - 8) of
        None \<Rightarrow> Inl MemoryFault
      | Some b \<Rightarrow>
          if 8 \<le> blk_size b
          then Inr (h\<lparr>cells := (cells h)(c_str_ptr c - 8 \<mapsto> b\<lparr>hdr_size := new_size\<rparr>)\<rparr>)
          else Inl MemoryFault)"

text \<open>Both return the heap and the new size, as the source returns the assigned value.\<close>

definition increase_size_to_buffer_header ::
  "heap \<Rightarrow> malloc_core \<Rightarrow> nat \<Rightarrow> error + (heap \<times> nat)" where
  "increase_size_to_buffer_header h c size_to_increase =
     (let new_size = u32 (size_from_buffer_header h c + size_to_increase)
      in bindE (set_size_to_buffer_header h c new_size) (\<lambda>h'. Inr (h', new_size)))"

definition decrease_size_to_buffer_header ::
  "heap \<Rightarrow> malloc_core \<Rightarrow> nat \<Rightarrow> error + (heap \<times> nat)" where
  "decrease_size_to_buffer_header h c size_to_decrease =
     (let new_size = sub32 (size_from_buffer_header h c) size_to_decrease
      in bindE (set_size_to_buffer_header h c new_size) (\<lambda>h'. Inr (h', new_size)))"

definition get_idle_capacity_from_buffer_header :: "bool \<Rightarrow> heap \<Rightarrow> malloc_core \<Rightarrow> nat" where
  "get_idle_capacity_from_buffer_header nt h c =
     (let cp = capacity_from_buffer_header h c; sz = size_from_buffer_header h c
      in if nt then sub32 cp (sz + 1 + 8) else sub32 cp (sz + 8))"

fun idle_capacity :: "bool \<Rightarrow> heap \<Rightarrow> malloc_core \<Rightarrow> nat" where
  "idle_capacity nt h (InternalCore d s) = sub32 (internal_buffer_size nt) s"
| "idle_capacity nt h (ShortCore p c s) =
     (if nt then sub32 ((c + 1) * 8) (s + 1) else sub32 ((c + 1) * 8) s)"
| "idle_capacity nt h (MedianCore p i) = i"
| "idle_capacity nt h (LongCore p i) = get_idle_capacity_from_buffer_header nt h (LongCore p i)"

fun capacity_core :: "bool \<Rightarrow> heap \<Rightarrow> malloc_core \<Rightarrow> nat" where
  "capacity_core nt h (InternalCore d s) = internal_buffer_size nt"
| "capacity_core nt h (ShortCore p c s) = (if nt then (c + 1) * 8 - 1 else (c + 1) * 8)"
| "capacity_core nt h c =
     (if nt then sub32 (capacity_from_buffer_header h c) (1 + 8)
      else sub32 (capacity_from_buffer_header h c) 8)"

fun size_core :: "heap \<Rightarrow> malloc_core \<Rightarrow> nat" where
  "size_core h (InternalCore d s) = s"
| "size_core h (ShortCore p c s) = s"
| "size_core h c = size_from_buffer_header h c"

text \<open>\<^verbatim>\<open>get_capacity_and_size\<close>, as the pair \<open>(capacity, size)\<close>.\<close>

fun get_capacity_and_size :: "bool \<Rightarrow> heap \<Rightarrow> malloc_core \<Rightarrow> nat \<times> nat" where
  "get_capacity_and_size nt h (InternalCore d s) = (internal_buffer_size nt, s)"
| "get_capacity_and_size nt h (ShortCore p c s) =
     (if nt then (u32 ((c + 1) * 8) - 1, s) else (u32 ((c + 1) * 8), s))"
| "get_capacity_and_size nt h c =
     (let cp = capacity_from_buffer_header h c; sz = size_from_buffer_header h c
      in (if nt then sub32 cp (1 + 8) else sub32 cp 8, sz))"

text \<open>
  The characters reachable through \<^verbatim>\<open>begin_ptr()\<close> (\<^verbatim>\<open>get_buffer()\<close>, \<^verbatim>\<open>data()\<close>):
  \<open>buffer_of h c i\<close> is \<^verbatim>\<open>data()[i]\<close>.
\<close>

fun buffer_of :: "heap \<Rightarrow> malloc_core \<Rightarrow> nat \<Rightarrow> byte" where
  "buffer_of h (InternalCore d s) = d"
| "buffer_of h c = chars (block_at h (get_buffer_ptr c))"

text \<open>
  A store of \<open>n\<close> bytes through \<^verbatim>\<open>get_buffer() + off\<close>. The internal array has 7
  elements; an external buffer ends where its allocation ends.
\<close>

fun store :: "heap \<Rightarrow> malloc_core \<Rightarrow> nat \<Rightarrow> nat \<Rightarrow> (nat \<Rightarrow> byte) \<Rightarrow> error + sstate" where
  "store h (InternalCore d s) off n f =
     (if off + n \<le> 7 then Inr (h, InternalCore (write_range d off n f) s) else Inl MemoryFault)"
| "store h c off n f =
     bindE (store_block h (get_buffer_ptr c) (data_offset c) off n f) (\<lambda>h'. Inr (h', c))"

text \<open>The terminator: \<^verbatim>\<open>ptr[i] = '\0'\<close> under \<^verbatim>\<open>if constexpr (NullTerminated)\<close>.\<close>

definition set_term :: "bool \<Rightarrow> heap \<Rightarrow> malloc_core \<Rightarrow> nat \<Rightarrow> error + sstate" where
  "set_term nt h c i = (if nt then store h c i 1 (\<lambda>_. 0) else Inr (h, c))"

fun set_size_and_idle_and_set_term :: "bool \<Rightarrow> heap \<Rightarrow> malloc_core \<Rightarrow> nat \<Rightarrow> error + sstate" where
  "set_size_and_idle_and_set_term nt h (InternalCore d s) new_size =
     (let s' = new_size mod 2 ^ 8 mod 2 ^ 6 in set_term nt h (InternalCore d s') s')"
| "set_size_and_idle_and_set_term nt h (ShortCore p c s) new_size =
     set_term nt h (ShortCore p c (new_size mod 2 ^ 16 mod 2 ^ 9)) new_size"
| "set_size_and_idle_and_set_term nt h (MedianCore p i) new_size =
     bindE (set_size_to_buffer_header h (MedianCore p i) new_size) (\<lambda>h'.
       set_term nt h'
         (MedianCore p (get_idle_capacity_from_buffer_header nt h' (MedianCore p i) mod 2 ^ 14))
         new_size)"
| "set_size_and_idle_and_set_term nt h (LongCore p i) new_size =
     bindE (set_size_to_buffer_header h (LongCore p i) new_size) (\<lambda>h'.
       set_term nt h' (LongCore p i) new_size)"

fun increase_size_and_idle_and_set_term ::
  "bool \<Rightarrow> heap \<Rightarrow> malloc_core \<Rightarrow> nat \<Rightarrow> error + sstate" where
  "increase_size_and_idle_and_set_term nt h (InternalCore d s) n =
     (let s' = (s + n) mod 2 ^ 6 in set_term nt h (InternalCore d s') s')"
| "increase_size_and_idle_and_set_term nt h (ShortCore p c s) n =
     (let s' = (s + n) mod 2 ^ 9 in set_term nt h (ShortCore p c s') s')"
| "increase_size_and_idle_and_set_term nt h (MedianCore p i) n =
     (let i' = (i + 2 ^ 32 - n mod 2 ^ 32) mod 2 ^ 14
      in bindE (increase_size_to_buffer_header h (MedianCore p i') n) (\<lambda>(h', new_str_size).
           set_term nt h' (MedianCore p i') new_str_size))"
| "increase_size_and_idle_and_set_term nt h (LongCore p i) n =
     bindE (increase_size_to_buffer_header h (LongCore p i) n) (\<lambda>(h', new_str_size).
       set_term nt h' (LongCore p i) new_str_size)"

fun decrease_size_and_idle_and_set_term ::
  "bool \<Rightarrow> heap \<Rightarrow> malloc_core \<Rightarrow> nat \<Rightarrow> error + sstate" where
  "decrease_size_and_idle_and_set_term nt h (InternalCore d s) n =
     (let s' = (s + 2 ^ 32 - n mod 2 ^ 32) mod 2 ^ 6 in set_term nt h (InternalCore d s') s')"
| "decrease_size_and_idle_and_set_term nt h (ShortCore p c s) n =
     (let s' = (s + 2 ^ 32 - n mod 2 ^ 32) mod 2 ^ 9 in set_term nt h (ShortCore p c s') s')"
| "decrease_size_and_idle_and_set_term nt h (MedianCore p i) n =
     (let i' = (i + n) mod 2 ^ 14
      in bindE (decrease_size_to_buffer_header h (MedianCore p i') n) (\<lambda>(h', new_str_size).
           set_term nt h' (MedianCore p i') new_str_size))"
| "decrease_size_and_idle_and_set_term nt h (LongCore p i) n =
     bindE (decrease_size_to_buffer_header h (LongCore p i) n) (\<lambda>(h', new_str_size).
       set_term nt h' (LongCore p i) new_str_size)"

text \<open>The move constructor \<^verbatim>\<open>body{std::exchange(gone.body, 0)}\<close>: \<open>(new, gone)\<close>.\<close>

definition move_core :: "malloc_core \<Rightarrow> malloc_core \<times> malloc_core" where
  "move_core gone = (gone, zero_core)"

text \<open>\<^verbatim>\<open>malloc_core::swap\<close>: the two bodies exchanged, \<open>(this, other)\<close>.\<close>

definition swap_core :: "malloc_core \<Rightarrow> malloc_core \<Rightarrow> malloc_core \<times> malloc_core" where
  "swap_core this other = (other, this)"

subsection \<open>The buffer manager\<close>

definition calculate_median_long_real_idle_capacity :: "bool \<Rightarrow> nat \<Rightarrow> nat \<Rightarrow> nat" where
  "calculate_median_long_real_idle_capacity nt bsz old_size =
     (if nt then sub32 bsz (8 + 1 + old_size) else sub32 bsz (8 + old_size))"

text \<open>
  \<^verbatim>\<open>allocate_new_external_buffer\<close>. The Internal case is
  \<^verbatim>\<open>Assert(false); __builtin_unreachable()\<close>.
\<close>

definition allocate_new_external_buffer ::
  "bool \<Rightarrow> heap \<Rightarrow> buffer_type_and_size \<Rightarrow> nat \<Rightarrow> error + sstate" where
  "allocate_new_external_buffer nt h type_and_size old_str_size =
     (let new_buffer_size = buffer_size type_and_size in
      case core_type type_and_size of
        Internal \<Rightarrow> Inl MemoryFault
      | Short \<Rightarrow>
          (let (buf, h1) = malloc h new_buffer_size
           in Inr (h1, ShortCore buf (sub32 (new_buffer_size div 8) 1 mod 2 ^ 8 mod 2 ^ 5)
                          (old_str_size mod 2 ^ 16 mod 2 ^ 9)))
      | Median \<Rightarrow>
          (let (buf, h1) = malloc h new_buffer_size
           in bindE (write_header h1 buf new_buffer_size old_str_size) (\<lambda>h2.
                Inr (h2, MedianCore (buf + 8)
                  (calculate_median_long_real_idle_capacity nt new_buffer_size old_str_size
                     mod 2 ^ 16 mod 2 ^ 14))))
      | Long \<Rightarrow>
          (let (buf, h1) = malloc h new_buffer_size
           in bindE (write_header h1 buf new_buffer_size old_str_size) (\<lambda>h2.
                Inr (h2, LongCore (buf + 8) 0))))"

text \<open>
  \<^verbatim>\<open>initial_allocate(cap_and_type, size)\<close>. It runs in constructors only, on the core
  that \<^verbatim>\<open>malloc_core()\<close> has just zeroed, so the Internal case starts from \<open>zero_core\<close>.
\<close>

definition initial_allocate ::
  "bool \<Rightarrow> heap \<Rightarrow> buffer_type_and_size \<Rightarrow> nat \<Rightarrow> error + sstate" where
  "initial_allocate nt h cap_and_type sz =
     (let new_buffer_size = buffer_size cap_and_type in
      case core_type cap_and_type of
        Internal \<Rightarrow> set_term nt h (InternalCore (\<lambda>_. 0) (sz mod 2 ^ 8 mod 2 ^ 6)) sz
      | Short \<Rightarrow>
          (let (buf, h1) = malloc h new_buffer_size
           in bindE (if nt then store_block h1 buf 0 sz 1 (\<lambda>_. 0) else Inr h1) (\<lambda>h2.
                Inr (h2, ShortCore buf (sub32 (new_buffer_size div 8) 1 mod 2 ^ 8 mod 2 ^ 5)
                           (sz mod 2 ^ 16 mod 2 ^ 9))))
      | Median \<Rightarrow>
          (let (buf, h1) = malloc h new_buffer_size
           in bindE (write_header h1 buf new_buffer_size sz) (\<lambda>h2.
              bindE (if nt then store_block h2 buf 8 sz 1 (\<lambda>_. 0) else Inr h2) (\<lambda>h3.
                Inr (h3, MedianCore (buf + 8)
                  (calculate_median_long_real_idle_capacity nt new_buffer_size sz
                     mod 2 ^ 16 mod 2 ^ 14)))))
      | Long \<Rightarrow>
          (let (buf, h1) = malloc h new_buffer_size
           in bindE (write_header h1 buf new_buffer_size sz) (\<lambda>h2.
              bindE (if nt then store_block h2 buf 8 sz 1 (\<lambda>_. 0) else Inr h2) (\<lambda>h3.
                Inr (h3, LongCore (buf + 8) 0)))))"

text \<open>\<^verbatim>\<open>initial_allocate(size_t new_string_size)\<close>.\<close>

definition initial_allocate_size :: "bool \<Rightarrow> heap \<Rightarrow> nat \<Rightarrow> error + sstate" where
  "initial_allocate_size nt h new_string_size =
     initial_allocate nt h (calculate_new_buffer_size nt new_string_size) (u32 new_string_size)"

text \<open>The deallocation of the old buffer, in the destructor and after a reallocation.\<close>

definition release :: "heap \<Rightarrow> malloc_core \<Rightarrow> heap" where
  "release h c = (if is_external c then free h (get_buffer_ptr c) else h)"

text \<open>
  \<^verbatim>\<open>allocate_more<Term>(new_append_size)\<close>; \<open>tm\<close> is \<^verbatim>\<open>Term == Need0::Yes\<close>. The sum
  \<^verbatim>\<open>old_size + new_append_size\<close> is a \<^verbatim>\<open>size_type\<close>.
\<close>

definition allocate_more :: "bool \<Rightarrow> bool \<Rightarrow> heap \<Rightarrow> malloc_core \<Rightarrow> nat \<Rightarrow> error + sstate" where
  "allocate_more nt tm h c new_append_size =
     (let old_delta = idle_capacity nt h c in
      if old_delta \<ge> new_append_size then Inr (h, c)
      else
        let old_size = size_core h c in
        bindE (allocate_new_external_buffer nt h
                 (calculate_new_buffer_size_growth nt (u32 (old_size + new_append_size))) old_size)
          (\<lambda>(h1, new_external).
        bindE (store h1 new_external 0 old_size (buffer_of h c)) (\<lambda>(h2, c2).
        bindE (if nt \<and> tm then store h2 c2 old_size 1 (\<lambda>_. 0) else Inr (h2, c2)) (\<lambda>(h3, c3).
          Inr (release h3 c, c3)))))"

text \<open>\<^verbatim>\<open>buffer_reserve<Term, NeedCopy>(new_cap)\<close>.\<close>

definition buffer_reserve ::
  "bool \<Rightarrow> bool \<Rightarrow> bool \<Rightarrow> heap \<Rightarrow> malloc_core \<Rightarrow> nat \<Rightarrow> error + sstate" where
  "buffer_reserve nt tm need_copy h c new_cap =
     (let (old_cap, old_size) = get_capacity_and_size nt h c in
      if new_cap > old_cap then
        bindE (allocate_new_external_buffer nt h (calculate_new_buffer_size nt new_cap) old_size)
          (\<lambda>(h1, new_external).
        bindE (if need_copy then store h1 new_external 0 old_size (buffer_of h c)
               else Inr (h1, new_external)) (\<lambda>(h2, c2).
        bindE (if nt \<and> tm \<and> need_copy then store h2 c2 old_size 1 (\<lambda>_. 0) else Inr (h2, c2))
          (\<lambda>(h3, c3).
          Inr (release h3 c, c3))))
      else Inr (h, c))"

definition increase_size :: "bool \<Rightarrow> heap \<Rightarrow> malloc_core \<Rightarrow> nat \<Rightarrow> error + sstate" where
  "increase_size nt h c delta = increase_size_and_idle_and_set_term nt h c delta"

definition set_size :: "bool \<Rightarrow> heap \<Rightarrow> malloc_core \<Rightarrow> nat \<Rightarrow> error + sstate" where
  "set_size nt h c new_size = set_size_and_idle_and_set_term nt h c new_size"

definition decrease_size :: "bool \<Rightarrow> heap \<Rightarrow> malloc_core \<Rightarrow> nat \<Rightarrow> error + sstate" where
  "decrease_size nt h c delta = decrease_size_and_idle_and_set_term nt h c delta"

subsection \<open>The string operations\<close>

text \<open>What \<^verbatim>\<open>(data(), size())\<close> reads back.\<close>

definition string_bytes :: "heap \<Rightarrow> malloc_core \<Rightarrow> byte list" where
  "string_bytes h c = map (buffer_of h c) [0..<size_core h c]"

text \<open>The default constructor.\<close>

definition construct_empty :: "heap \<Rightarrow> sstate" where
  "construct_empty h = (h, zero_core)"

text \<open>
  \<^verbatim>\<open>basic_small_string(const Char* s, size_t count)\<close>: the delegated constructor casts
  \<^verbatim>\<open>count\<close> to \<^verbatim>\<open>size_type\<close> and allocates, then \<^verbatim>\<open>memcpy(data(), s, count)\<close>. The
  argument is the \<open>count\<close> bytes at \<open>s\<close>.
\<close>

definition construct_from :: "bool \<Rightarrow> heap \<Rightarrow> byte list \<Rightarrow> error + sstate" where
  "construct_from nt h bs =
     (let count = length bs in
      bindE (initial_allocate_size nt h (u32 count)) (\<lambda>(h1, c1).
        store h1 c1 0 count (\<lambda>i. bs ! i)))"

text \<open>\<^verbatim>\<open>assign(const Char* s, size_type count)\<close>.\<close>

definition assign :: "bool \<Rightarrow> heap \<Rightarrow> malloc_core \<Rightarrow> byte list \<Rightarrow> error + sstate" where
  "assign nt h c bs =
     (let count = length bs in
      bindE (buffer_reserve nt False False h c count) (\<lambda>(h1, c1).
      bindE (store h1 c1 0 count (\<lambda>i. bs ! i)) (\<lambda>(h2, c2).
        set_size nt h2 c2 count)))"

text \<open>\<^verbatim>\<open>append(const Char* s, size_type count)\<close>; \<^verbatim>\<open>end()\<close> is \<^verbatim>\<open>data() + size()\<close>.\<close>

definition append_chars :: "bool \<Rightarrow> heap \<Rightarrow> malloc_core \<Rightarrow> byte list \<Rightarrow> error + sstate" where
  "append_chars nt h c bs =
     (let count = length bs in
      if count = 0 then Inr (h, c)
      else
        bindE (allocate_more nt False h c count) (\<lambda>(h1, c1).
        bindE (store h1 c1 (size_core h1 c1) count (\<lambda>i. bs ! i)) (\<lambda>(h2, c2).
          increase_size nt h2 c2 count)))"

text \<open>\<^verbatim>\<open>insert(size_type index, const Char* str, size_type count)\<close>.\<close>

definition insert_chars ::
  "bool \<Rightarrow> heap \<Rightarrow> malloc_core \<Rightarrow> nat \<Rightarrow> byte list \<Rightarrow> error + sstate" where
  "insert_chars nt h c index bs =
     (let count = length bs in
      if count = 0 then Inr (h, c)
      else
        let old_size = size_core h c in
        if index > old_size then Inl OutOfRange
        else
          bindE (allocate_more nt False h c count) (\<lambda>(h1, c1).
          bindE (if index < old_size
                 then store h1 c1 (index + count) (old_size - index)
                        (\<lambda>i. buffer_of h1 c1 (index + i))
                 else Inr (h1, c1)) (\<lambda>(h2, c2).
          bindE (store h2 c2 index count (\<lambda>i. bs ! i)) (\<lambda>(h3, c3).
            increase_size nt h3 c3 count))))"

text \<open>\<^verbatim>\<open>erase(size_type index, size_type count)\<close>.\<close>

definition erase :: "bool \<Rightarrow> heap \<Rightarrow> malloc_core \<Rightarrow> nat \<Rightarrow> nat \<Rightarrow> error + sstate" where
  "erase nt h c index count =
     (let old_size = size_core h c in
      if index > old_size then Inl OutOfRange
      else
        let real_count = min count (u32 (old_size - index)) in
        if real_count = 0 then Inr (h, c)
        else
          let new_size = old_size - real_count;
              right_size = old_size - index - real_count in
          bindE (if right_size > 0
                 then store h c index (u32 right_size)
                        (\<lambda>i. buffer_of h c (index + real_count + i))
                 else Inr (h, c)) (\<lambda>(h1, c1).
            set_size nt h1 c1 (u32 new_size)))"

text \<open>\<^verbatim>\<open>resize(size_type count, Char ch)\<close>.\<close>

definition resize :: "bool \<Rightarrow> heap \<Rightarrow> malloc_core \<Rightarrow> nat \<Rightarrow> byte \<Rightarrow> error + sstate" where
  "resize nt h c count ch =
     (let (cap, old_size) = get_capacity_and_size nt h c in
      if count \<le> old_size then set_size nt h c count
      else
        bindE (if count > cap then buffer_reserve nt False True h c count else Inr (h, c))
          (\<lambda>(h1, c1).
        bindE (store h1 c1 old_size (count - old_size) (\<lambda>_. ch)) (\<lambda>(h2, c2).
          set_size nt h2 c2 count)))"

text \<open>\<^verbatim>\<open>reserve(size_type new_cap)\<close>.\<close>

definition reserve :: "bool \<Rightarrow> heap \<Rightarrow> malloc_core \<Rightarrow> nat \<Rightarrow> error + sstate" where
  "reserve nt h c new_cap = buffer_reserve nt True True h c new_cap"

text \<open>
  \<^verbatim>\<open>shrink_to_fit()\<close>: the temporary \<^verbatim>\<open>new_str\<close> is allocated with
  \<^verbatim>\<open>initial_allocate(cap_and_type, size)\<close>, filled by \<^verbatim>\<open>memcpy\<close>, swapped with
  \<^verbatim>\<open>*this\<close>, and its destructor releases the old buffer.
\<close>

definition shrink_to_fit :: "bool \<Rightarrow> heap \<Rightarrow> malloc_core \<Rightarrow> error + sstate" where
  "shrink_to_fit nt h c =
     (let (cap, sz) = get_capacity_and_size nt h c;
          cap_and_type = calculate_new_buffer_size nt sz in
      if cap > buffer_size cap_and_type then
        bindE (initial_allocate nt h cap_and_type (u32 sz)) (\<lambda>(h1, new_str).
        bindE (store h1 new_str 0 sz (buffer_of h c)) (\<lambda>(h2, new_str2).
          let (this, other) = swap_core c new_str2 in
          Inr (release h2 other, this)))
      else Inr (h, c))"

definition clear :: "bool \<Rightarrow> heap \<Rightarrow> malloc_core \<Rightarrow> error + sstate" where
  "clear nt h c = set_size nt h c 0"

text \<open>
  The move constructor, \<open>(heap, new, gone)\<close>, and move assignment
  \<^verbatim>\<open>operator=(basic_small_string&&)\<close> between two distinct objects: the destructor of
  \<^verbatim>\<open>*this\<close>, then the move constructor in place.
\<close>

definition move_construct :: "heap \<Rightarrow> malloc_core \<Rightarrow> heap \<times> malloc_core \<times> malloc_core" where
  "move_construct h gone = (let (new, gone') = move_core gone in (h, new, gone'))"

definition move_assign ::
  "heap \<Rightarrow> malloc_core \<Rightarrow> malloc_core \<Rightarrow> heap \<times> malloc_core \<times> malloc_core" where
  "move_assign h this other = move_construct (release h this) other"

text \<open>
  \<^verbatim>\<open>at<Safe = true>(pos)\<close> and \<^verbatim>\<open>operator[]<Safe = true>(pos)\<close>. The reference
  returned is \<^verbatim>\<open>*(get_buffer() + pos)\<close>; it is modelled by the byte it refers to. Neither
  function has the state among its results: it does not write.
\<close>

definition at_pos :: "heap \<Rightarrow> malloc_core \<Rightarrow> nat \<Rightarrow> error + byte" where
  "at_pos h c pos = (if pos \<ge> size_core h c then Inl OutOfRange else Inr (buffer_of h c pos))"

definition subscript :: "heap \<Rightarrow> malloc_core \<Rightarrow> nat \<Rightarrow> error + byte" where
  "subscript h c pos = (if pos \<ge> size_core h c then Inl OutOfRange else Inr (buffer_of h c pos))"

subsection \<open>Sequences of public operations\<close>

text \<open>
  The mutating operations on one string. An argument of type \<^verbatim>\<open>size_type\<close> is below
  \<open>2 ^ 32\<close>, and so is the length of a character range passed with a \<^verbatim>\<open>size_type\<close>
  count: \<open>op_typed\<close>.
\<close>

datatype string_op =
    Assign "byte list"
  | Append "byte list"
  | Insert nat "byte list"
  | Erase nat nat
  | Resize nat byte
  | Reserve nat
  | ShrinkToFit
  | Clear

fun op_typed :: "string_op \<Rightarrow> bool" where
  "op_typed (Assign bs) = (length bs < 2 ^ 32)"
| "op_typed (Append bs) = (length bs < 2 ^ 32)"
| "op_typed (Insert index bs) = (index < 2 ^ 32 \<and> length bs < 2 ^ 32)"
| "op_typed (Erase index count) = (index < 2 ^ 32 \<and> count < 2 ^ 32)"
| "op_typed (Resize count ch) = (count < 2 ^ 32)"
| "op_typed (Reserve new_cap) = (new_cap < 2 ^ 32)"
| "op_typed ShrinkToFit = True"
| "op_typed Clear = True"

fun apply_op :: "bool \<Rightarrow> string_op \<Rightarrow> sstate \<Rightarrow> error + sstate" where
  "apply_op nt (Assign bs) (h, c) = assign nt h c bs"
| "apply_op nt (Append bs) (h, c) = append_chars nt h c bs"
| "apply_op nt (Insert index bs) (h, c) = insert_chars nt h c index bs"
| "apply_op nt (Erase index count) (h, c) = erase nt h c index count"
| "apply_op nt (Resize count ch) (h, c) = resize nt h c count ch"
| "apply_op nt (Reserve new_cap) (h, c) = reserve nt h c new_cap"
| "apply_op nt ShrinkToFit (h, c) = shrink_to_fit nt h c"
| "apply_op nt Clear (h, c) = clear nt h c"

text \<open>
  The states a string can be in: it is constructed (empty, or from characters), and then
  any public operation that returns is applied; it is swapped with another string, is the
  target or the source of a move construction, or of a move assignment. Two distinct
  strings own distinct buffers, which is what the side condition of the move assignment
  says.
\<close>

inductive reachable :: "bool \<Rightarrow> sstate \<Rightarrow> bool" for nt :: bool where
  r_empty: "reachable nt (construct_empty h)"
| r_construct: "construct_from nt h bs = Inr s \<Longrightarrow> reachable nt s"
| r_op: "reachable nt s \<Longrightarrow> op_typed opn \<Longrightarrow> apply_op nt opn s = Inr s' \<Longrightarrow> reachable nt s'"
| r_swap_this: "reachable nt (h, a) \<Longrightarrow> reachable nt (h, b) \<Longrightarrow>
     reachable nt (h, fst (swap_core a b))"
| r_swap_other: "reachable nt (h, a) \<Longrightarrow> reachable nt (h, b) \<Longrightarrow>
     reachable nt (h, snd (swap_core a b))"
| r_move_new: "reachable nt (h, gone) \<Longrightarrow> move_construct h gone = (h', new, gone') \<Longrightarrow>
     reachable nt (h', new)"
| r_move_gone: "reachable nt (h, gone) \<Longrightarrow> move_construct h gone = (h', new, gone') \<Longrightarrow>
     reachable nt (h', gone')"
| r_move_assign_this: "reachable nt (h, this) \<Longrightarrow> reachable nt (h, other) \<Longrightarrow>
     is_external other \<longrightarrow> get_buffer_ptr this \<noteq> get_buffer_ptr other \<Longrightarrow>
     move_assign h this other = (h', this', other') \<Longrightarrow> reachable nt (h', this')"
| r_move_assign_other: "reachable nt (h, this) \<Longrightarrow> reachable nt (h, other) \<Longrightarrow>
     is_external other \<longrightarrow> get_buffer_ptr this \<noteq> get_buffer_ptr other \<Longrightarrow>
     move_assign h this other = (h', this', other') \<Longrightarrow> reachable nt (h', other')"

subsection \<open>The representation invariant\<close>

text \<open>
  \<open>term_ok\<close>: the byte at \<^verbatim>\<open>data()[size()]\<close> is zero. \<open>median_idle_ok\<close>: in the Median
  tier the cached 14-bit field is the idle capacity computed from the header.
  \<open>wf\<close>: the block of an external core is live and as large as the core (Short) or the
  header (Median, Long) says, the size and the terminator fit in it, the cached idle
  capacity is the header's reduced to the 14 bits of the field, and the terminator is in
  place.
\<close>

definition term_ok :: "heap \<Rightarrow> malloc_core \<Rightarrow> bool" where
  "term_ok h c = (buffer_of h c (size_core h c) = 0)"

definition median_idle_ok :: "bool \<Rightarrow> heap \<Rightarrow> malloc_core \<Rightarrow> bool" where
  "median_idle_ok nt h c =
     (get_core_type c = 2 \<longrightarrow>
        idle_or_ignore c = get_idle_capacity_from_buffer_header nt h c)"

definition term_size :: "bool \<Rightarrow> nat" where
  "term_size nt = (if nt then 1 else 0)"

fun wf :: "bool \<Rightarrow> heap \<Rightarrow> malloc_core \<Rightarrow> bool" where
  "wf nt h (InternalCore d s) = (s \<le> internal_buffer_size nt \<and> (nt \<longrightarrow> d s = 0))"
| "wf nt h (ShortCore p c s) =
     (case cells h p of
        None \<Rightarrow> False
      | Some b \<Rightarrow>
          p < next_free h \<and> c < 32 \<and> blk_size b = (c + 1) * 8 \<and>
          s + term_size nt \<le> (c + 1) * 8 \<and> (nt \<longrightarrow> chars b s = 0))"
| "wf nt h (MedianCore p i) =
     (case cells h (p - 8) of
        None \<Rightarrow> False
      | Some b \<Rightarrow>
          8 \<le> p \<and> p - 8 < next_free h \<and> blk_size b = hdr_capacity b \<and>
          hdr_capacity b \<le> 16392 \<and>
          hdr_size b + 8 + term_size nt \<le> hdr_capacity b \<and>
          i = (hdr_capacity b - (hdr_size b + 8 + term_size nt)) mod 2 ^ 14 \<and>
          (nt \<longrightarrow> chars b (hdr_size b) = 0))"
| "wf nt h (LongCore p i) =
     (case cells h (p - 8) of
        None \<Rightarrow> False
      | Some b \<Rightarrow>
          8 \<le> p \<and> p - 8 < next_free h \<and> blk_size b = hdr_capacity b \<and>
          hdr_capacity b < 2 ^ 32 \<and> 8 dvd hdr_capacity b \<and>
          hdr_size b + 8 + term_size nt \<le> hdr_capacity b \<and>
          (nt \<longrightarrow> chars b (hdr_size b) = 0))"

text \<open>
  Between the steps of one operation the size or the terminator may not be settled yet.
  \<open>shape\<close> is the part of \<open>wf\<close> that holds throughout: the block is live and has the
  recorded length, and the fields are within their widths. \<open>data_limit\<close> is the number of
  characters the buffer has room for, terminator included.
\<close>

fun data_limit :: "heap \<Rightarrow> malloc_core \<Rightarrow> nat" where
  "data_limit h (InternalCore d s) = 7"
| "data_limit h c = blk_size (block_at h (get_buffer_ptr c)) - data_offset c"

fun shape :: "bool \<Rightarrow> heap \<Rightarrow> malloc_core \<Rightarrow> bool" where
  "shape nt h (InternalCore d s) = (s < 64)"
| "shape nt h (ShortCore p c s) =
     (case cells h p of
        None \<Rightarrow> False
      | Some b \<Rightarrow> p < next_free h \<and> c < 32 \<and> blk_size b = (c + 1) * 8 \<and> s < 512)"
| "shape nt h (MedianCore p i) =
     (case cells h (p - 8) of
        None \<Rightarrow> False
      | Some b \<Rightarrow>
          8 \<le> p \<and> p - 8 < next_free h \<and> blk_size b = hdr_capacity b \<and>
          8 \<le> hdr_capacity b \<and> hdr_capacity b \<le> 16392 \<and> hdr_size b < 2 ^ 32 \<and>
          i = sub32 (hdr_capacity b) (hdr_size b + 8 + term_size nt) mod 2 ^ 14)"
| "shape nt h (LongCore p i) =
     (case cells h (p - 8) of
        None \<Rightarrow> False
      | Some b \<Rightarrow>
          8 \<le> p \<and> p - 8 < next_free h \<and> blk_size b = hdr_capacity b \<and>
          8 \<le> hdr_capacity b \<and> hdr_capacity b < 2 ^ 32 \<and> 8 dvd hdr_capacity b \<and>
          hdr_size b < 2 ^ 32)"

text \<open>
  \<open>same_buffer\<close>: a step that did not reallocate. The buffer pointer, the tier and the
  room in the buffer are unchanged, and nothing was allocated.
\<close>

definition same_buffer :: "heap \<Rightarrow> malloc_core \<Rightarrow> heap \<Rightarrow> malloc_core \<Rightarrow> bool" where
  "same_buffer h c h' c' =
     (get_buffer_ptr c' = get_buffer_ptr c \<and> get_core_type c' = get_core_type c \<and>
      data_limit h' c' = data_limit h c \<and> next_free h' = next_free h)"

subsection \<open>A concrete heap\<close>

text \<open>
  An empty heap whose uninitialised memory is filled with \<open>0xAA\<close> bytes and whose
  uninitialised header words are \<open>0xDEADBEEF\<close>, for evaluating the operations on
  concrete inputs.
\<close>

definition example_heap :: heap where
  "example_heap =
     \<lparr>cells = (\<lambda>_. None), next_free = 4096,
      fresh = \<lparr>blk_size = 0, hdr_capacity = 3735928559, hdr_size = 3735928559,
               chars = (\<lambda>_. 170)\<rparr>\<rparr>"

section \<open>Arithmetic facts\<close>

lemma and_align8:
  assumes "m < 2 ^ 64"
  shows "(m::nat) AND (2 ^ 64 - 8) = m div 8 * 8"
proof -
  have e: "(2::nat) ^ 64 - 8 = push_bit 3 (mask 61)"
    by (simp add: push_bit_eq_mult mask_eq_exp_minus_1)
  have "m AND push_bit 3 (mask 61) = push_bit 3 (drop_bit 3 m AND mask 61)"
    by (rule bit_eqI) (auto simp: bit_simps)
  also have "drop_bit 3 m AND mask 61 = take_bit 61 (drop_bit 3 m)"
    by (simp add: take_bit_eq_mask)
  also have "\<dots> = drop_bit 3 m"
    using assms by (simp add: take_bit_nat_eq_self_iff drop_bit_eq_div less_mult_imp_div_less)
  also have "push_bit 3 (drop_bit 3 m) = m div 8 * 8"
    by (simp add: push_bit_eq_mult drop_bit_eq_div)
  finally show ?thesis unfolding e .
qed

lemma AlignUpTo_8: "AlignUpTo 8 n = ((n + 7) mod 2 ^ 64) div 8 * 8"
proof -
  have m: "(n + 7) mod 2 ^ 64 < (2::nat) ^ 64" by simp
  have a: "((2::nat) ^ 64 - 8) mod 2 ^ 64 = 2 ^ 64 - 8" by (rule mod_less) simp
  have b: "n + 8 - 1 = n + 7" by simp
  show ?thesis unfolding AlignUpTo_def a b using and_align8[OF m] .
qed

lemma AlignUpTo_8_small: "n + 7 < 2 ^ 64 \<Longrightarrow> AlignUpTo 8 n = (n + 7) div 8 * 8"
  unfolding AlignUpTo_8 by (simp only: mod_less)

lemma u32_AlignUpTo_8_dvd: "8 dvd u32 (AlignUpTo 8 n)"
proof -
  have "(8::nat) dvd 2 ^ 32" by simp
  moreover have "(8::nat) dvd AlignUpTo 8 n" by (simp add: AlignUpTo_8)
  ultimately show ?thesis unfolding u32_def by (simp only: dvd_mod_iff)
qed

lemma round8_bounds: "n \<le> (n + 7) div 8 * 8" "(n + 7) div 8 * 8 < n + 8" "8 dvd (n + 7) div 8 * 8"
  for n :: nat
  by presburger+

lemma bindE_Inl [simp]: "bindE (Inl e) f = Inl e"
  by (simp add: bindE_def)

lemma bindE_Inr [simp]: "bindE (Inr x) f = f x"
  by (simp add: bindE_def)

lemma bindE_eq_Inr: "(bindE m f = Inr y) = (\<exists>x. m = Inr x \<and> f x = Inr y)"
  by (cases m) auto

lemma sub32_exact: "b \<le> a \<Longrightarrow> a < 2 ^ 32 \<Longrightarrow> sub32 a b = a - b"
  unfolding sub32_def by (simp add: mod_if)

lemma sub32_less: "sub32 a b < 2 ^ 32"
  unfolding sub32_def by simp

lemma u32_id: "n < 2 ^ 32 \<Longrightarrow> u32 n = n"
  by (simp add: u32_def)

section \<open>The tier selector\<close>

lemma select_Internal:
  "core_type (calculate_new_buffer_size nt n) = Internal \<longleftrightarrow> n \<le> internal_buffer_size nt"
  by (simp add: calculate_new_buffer_size_def)

lemma select_Short:
  assumes "core_type (calculate_new_buffer_size nt n) = Short"
  shows "internal_buffer_size nt < n" "n \<le> max_short_buffer_size nt"
    "buffer_size (calculate_new_buffer_size nt n) = (n + term_size nt + 7) div 8 * 8"
  using assms
  by (auto simp: calculate_new_buffer_size_def AlignUpTo_8 u32_def term_size_def
      max_short_buffer_size_def internal_buffer_size_def split: if_splits)

lemma select_Median:
  assumes "core_type (calculate_new_buffer_size nt n) = Median"
  shows "max_short_buffer_size nt < n" "n \<le> 16383"
    "buffer_size (calculate_new_buffer_size nt n) = (n + 8 + term_size nt + 7) div 8 * 8"
  using assms
  by (auto simp: calculate_new_buffer_size_def AlignUpTo_8 u32_def term_size_def
      max_short_buffer_size_def internal_buffer_size_def max_median_buffer_size_def
      median_long_buffer_header_size_def split: if_splits)

lemma select_Long:
  assumes "core_type (calculate_new_buffer_size nt n) = Long"
  shows "16383 < n"
    "buffer_size (calculate_new_buffer_size nt n) < 2 ^ 32"
    "8 dvd buffer_size (calculate_new_buffer_size nt n)"
    "n + 8 + term_size nt + 7 < 2 ^ 32 \<Longrightarrow>
       buffer_size (calculate_new_buffer_size nt n) = (n + 8 + term_size nt + 7) div 8 * 8"
  using assms
     apply (auto simp: calculate_new_buffer_size_def u32_AlignUpTo_8_dvd term_size_def
      max_short_buffer_size_def internal_buffer_size_def max_median_buffer_size_def
      median_long_buffer_header_size_def split: if_splits)
   apply (simp_all add: u32_def AlignUpTo_8)
  done

section \<open>The invariant through the primitives\<close>

lemma wf_iff_shape:
  "wf nt h c \<longleftrightarrow>
     shape nt h c \<and> size_core h c + term_size nt \<le> data_limit h c \<and> (nt \<longrightarrow> term_ok h c)"
  by (cases c)
    (auto simp: term_ok_def term_size_def internal_buffer_size_def block_at_def
      size_from_buffer_header_def header_def sub32_exact split: option.splits if_splits)

lemma store_ext:
  assumes "shape nt h c" "store h c off n f = Inr (h', c')"
  shows "shape nt h' c'" "size_core h' c' = size_core h c" "off + n \<le> data_limit h c"
    "data_limit h' c' = data_limit h c"
    "buffer_of h' c' = write_range (buffer_of h c) off n f"
    "get_core_type c' = get_core_type c" "get_buffer_ptr c' = get_buffer_ptr c"
    "next_free h' = next_free h"
  using assms
  by (cases c; auto simp: store_block_def bindE_eq_Inr block_at_def size_from_buffer_header_def
      header_def split: option.splits if_splits)+

lemma idle_dec:
  assumes "n \<le> I" "n < 2 ^ 32"
  shows "(I mod 2 ^ 14 + 2 ^ 32 - n mod 2 ^ 32) mod 2 ^ 14 = (I - n) mod (2 ^ 14 :: nat)"
proof -
  have "I mod 2 ^ 14 + 2 ^ 32 - n = (I mod 2 ^ 14 + (2 ^ 32 - n))" using assms by simp
  then have "(I mod 2 ^ 14 + 2 ^ 32 - n) mod 2 ^ 14 = (I + (2 ^ 32 - n)) mod 2 ^ 14"
    by (simp only: mod_add_left_eq)
  also have "I + (2 ^ 32 - n) = (I - n) + 2 ^ 14 * 2 ^ 18" using assms by simp
  also have "\<dots> mod 2 ^ 14 = (I - n) mod 2 ^ 14" by (simp only: mod_mult_self2)
  finally show ?thesis using assms by simp
qed

lemma set_size_ok:
  assumes "shape nt h c" "n \<le> data_limit h c" "set_size nt h c n = Inr (h', c')"
  shows "wf nt h' c'" "size_core h' c' = n"
    "data_limit h' c' = data_limit h c"
    "buffer_of h' c' = (if nt then write_range (buffer_of h c) n 1 (\<lambda>_. 0) else buffer_of h c)"
    "get_core_type c' = get_core_type c" "get_buffer_ptr c' = get_buffer_ptr c"
    "next_free h' = next_free h"
  using assms
  by (cases c; auto simp: set_size_def set_term_def store_block_def bindE_eq_Inr block_at_def
      size_from_buffer_header_def header_def set_size_to_buffer_header_def
      get_idle_capacity_from_buffer_header_def capacity_from_buffer_header_def
      term_size_def internal_buffer_size_def sub32_exact write_range_def
      split: option.splits if_splits)+

lemma write_range_apply:
  "write_range g off n f i = (if off \<le> i \<and> i < off + n then f (i - off) else g i)"
  by (simp add: write_range_def)

lemmas prim_defs = set_term_def store_block_def bindE_eq_Inr block_at_def
  size_from_buffer_header_def header_def set_size_to_buffer_header_def
  increase_size_to_buffer_header_def decrease_size_to_buffer_header_def
  get_idle_capacity_from_buffer_header_def capacity_from_buffer_header_def
  term_size_def internal_buffer_size_def write_range_apply Let_def

lemma field_dec6:
  assumes "n \<le> s" "s < 2 ^ 6"
  shows "(s + 2 ^ 32 - n mod 2 ^ 32) mod 2 ^ 6 = (s - n :: nat)"
proof -
  have "n mod 2 ^ 32 = n" using assms by simp
  moreover have "s + 2 ^ 32 - n = (s - n) + 2 ^ 6 * 2 ^ 26" using assms by simp
  moreover have "((s - n) + 2 ^ 6 * 2 ^ 26) mod 2 ^ 6 = (s - n) mod 2 ^ 6"
    by (simp only: mod_mult_self2)
  ultimately show ?thesis using assms by simp
qed

lemma field_dec9:
  assumes "n \<le> s" "s < 2 ^ 9"
  shows "(s + 2 ^ 32 - n mod 2 ^ 32) mod 2 ^ 9 = (s - n :: nat)"
proof -
  have "n mod 2 ^ 32 = n" using assms by simp
  moreover have "s + 2 ^ 32 - n = (s - n) + 2 ^ 9 * 2 ^ 23" using assms by simp
  moreover have "((s - n) + 2 ^ 9 * 2 ^ 23) mod 2 ^ 9 = (s - n) mod 2 ^ 9"
    by (simp only: mod_mult_self2)
  ultimately show ?thesis using assms by simp
qed

lemma increase_size_Internal:
  assumes "c = InternalCore d s" "shape nt h c" "size_core h c + n \<le> data_limit h c"
    "increase_size nt h c n = Inr (h', c')"
  shows "wf nt h' c' \<and> size_core h' c' = size_core h c + n \<and>
    buffer_of h' c' = (if nt then write_range (buffer_of h c) (size_core h c + n) 1 (\<lambda>_. 0)
                       else buffer_of h c) \<and> same_buffer h c h' c'"
  using assms
  by (auto simp: increase_size_def same_buffer_def prim_defs split: option.splits if_splits)

lemma increase_size_Short:
  assumes "c = ShortCore p cp s" "shape nt h c" "size_core h c + n \<le> data_limit h c"
    "increase_size nt h c n = Inr (h', c')"
  shows "wf nt h' c' \<and> size_core h' c' = size_core h c + n \<and>
    buffer_of h' c' = (if nt then write_range (buffer_of h c) (size_core h c + n) 1 (\<lambda>_. 0)
                       else buffer_of h c) \<and> same_buffer h c h' c'"
  using assms
  by (auto simp: increase_size_def same_buffer_def prim_defs split: option.splits if_splits)

lemma increase_size_Long:
  assumes "c = LongCore p i" "shape nt h c" "size_core h c + n \<le> data_limit h c"
    "increase_size nt h c n = Inr (h', c')"
  shows "wf nt h' c' \<and> size_core h' c' = size_core h c + n \<and>
    buffer_of h' c' = (if nt then write_range (buffer_of h c) (size_core h c + n) 1 (\<lambda>_. 0)
                       else buffer_of h c) \<and> same_buffer h c h' c'"
  using assms
  by (auto simp: increase_size_def same_buffer_def prim_defs u32_def split: option.splits if_splits)

lemma increase_size_Median:
  assumes "c = MedianCore p i" "shape nt h c" "size_core h c + n \<le> data_limit h c"
    "increase_size nt h c n = Inr (h', c')"
  shows "wf nt h' c' \<and> size_core h' c' = size_core h c + n \<and>
    buffer_of h' c' = (if nt then write_range (buffer_of h c) (size_core h c + n) 1 (\<lambda>_. 0)
                       else buffer_of h c) \<and> same_buffer h c h' c'"
proof -
  from assms(1,2) obtain b where b: "cells h (p - 8) = Some b" "8 \<le> p" "p - 8 < next_free h"
    "blk_size b = hdr_capacity b" "8 \<le> hdr_capacity b" "hdr_capacity b \<le> 16392"
    "hdr_size b < 2 ^ 32"
    "i = sub32 (hdr_capacity b) (hdr_size b + 8 + term_size nt) mod 2 ^ 14"
    by (auto split: option.splits)
  from assms(1,3) b have fit: "hdr_size b + n + 8 \<le> hdr_capacity b"
    by (simp add: prim_defs)
  let ?i' = "(i + 2 ^ 32 - n mod 2 ^ 32) mod 2 ^ 14"
  let ?b1 = "b\<lparr>hdr_size := hdr_size b + n\<rparr>"
  let ?h1 = "h\<lparr>cells := (cells h)(p - 8 \<mapsto> ?b1)\<rparr>"
  have u: "u32 (hdr_size b + n) = hdr_size b + n" using fit b by (simp add: u32_def)
  from assms(1,4) b u
  have st: "set_term nt ?h1 (MedianCore p ?i') (hdr_size b + n) = Inr (h', c')"
    by (simp add: increase_size_def prim_defs del: bindE_eq_Inr)
  have fit2: "hdr_size b + n + 8 + term_size nt \<le> hdr_capacity b"
    using st fit b by (auto simp: prim_defs split: if_splits)
  define I where "I = hdr_capacity b - (hdr_size b + 8 + term_size nt)"
  have "sub32 (hdr_capacity b) (hdr_size b + 8 + term_size nt) = I"
    unfolding I_def using fit2 b by (intro sub32_exact) auto
  then have iI: "i = I mod 2 ^ 14" using b(8) by simp
  have le: "n \<le> I" "n < 2 ^ 32" using fit2 b(6) by (auto simp: I_def)
  have In: "I - n = hdr_capacity b - (hdr_size b + n + 8 + term_size nt)"
    by (simp add: I_def)
  have i': "?i' = (hdr_capacity b - (hdr_size b + n + 8 + term_size nt)) mod 2 ^ 14"
    unfolding iI In[symmetric] by (rule idle_dec[OF le])
  show ?thesis
    using st b fit2 i' assms(1)
    by (auto simp: same_buffer_def prim_defs split: if_splits)
qed

lemma increase_size_ok:
  assumes "shape nt h c" "size_core h c + n \<le> data_limit h c"
    "increase_size nt h c n = Inr (h', c')"
  shows "wf nt h' c' \<and> size_core h' c' = size_core h c + n \<and>
    buffer_of h' c' = (if nt then write_range (buffer_of h c) (size_core h c + n) 1 (\<lambda>_. 0)
                       else buffer_of h c) \<and> same_buffer h c h' c'"
proof (cases c)
  case (InternalCore d s) then show ?thesis using assms by (rule increase_size_Internal)
next
  case (ShortCore p cp s) then show ?thesis using assms by (rule increase_size_Short)
next
  case (MedianCore p i) then show ?thesis using assms by (rule increase_size_Median)
next
  case (LongCore p i) then show ?thesis using assms by (rule increase_size_Long)
qed

lemma decrease_size_Internal:
  assumes "c = InternalCore d s" "wf nt h c" "n \<le> size_core h c"
    "decrease_size nt h c n = Inr (h', c')"
  shows "wf nt h' c' \<and> size_core h' c' = size_core h c - n \<and>
    buffer_of h' c' = (if nt then write_range (buffer_of h c) (size_core h c - n) 1 (\<lambda>_. 0)
                       else buffer_of h c) \<and> same_buffer h c h' c'"
  using assms field_dec6[of n s]
  by (auto simp: decrease_size_def same_buffer_def prim_defs split: option.splits if_splits)

lemma decrease_size_Short:
  assumes "c = ShortCore p cp s" "wf nt h c" "n \<le> size_core h c"
    "decrease_size nt h c n = Inr (h', c')"
  shows "wf nt h' c' \<and> size_core h' c' = size_core h c - n \<and>
    buffer_of h' c' = (if nt then write_range (buffer_of h c) (size_core h c - n) 1 (\<lambda>_. 0)
                       else buffer_of h c) \<and> same_buffer h c h' c'"
  using assms field_dec9[of n s]
  by (auto simp: decrease_size_def same_buffer_def prim_defs split: option.splits if_splits)

lemma decrease_size_Long:
  assumes "c = LongCore p i" "wf nt h c" "n \<le> size_core h c"
    "decrease_size nt h c n = Inr (h', c')"
  shows "wf nt h' c' \<and> size_core h' c' = size_core h c - n \<and>
    buffer_of h' c' = (if nt then write_range (buffer_of h c) (size_core h c - n) 1 (\<lambda>_. 0)
                       else buffer_of h c) \<and> same_buffer h c h' c'"
  using assms
  by (auto simp: decrease_size_def same_buffer_def prim_defs sub32_exact split: option.splits if_splits)

lemma decrease_size_Median:
  assumes "c = MedianCore p i" "wf nt h c" "n \<le> size_core h c"
    "decrease_size nt h c n = Inr (h', c')"
  shows "wf nt h' c' \<and> size_core h' c' = size_core h c - n \<and>
    buffer_of h' c' = (if nt then write_range (buffer_of h c) (size_core h c - n) 1 (\<lambda>_. 0)
                       else buffer_of h c) \<and> same_buffer h c h' c'"
proof -
  from assms(1,2) obtain b where b: "cells h (p - 8) = Some b" "8 \<le> p" "p - 8 < next_free h"
    "blk_size b = hdr_capacity b" "hdr_capacity b \<le> 16392"
    "hdr_size b + 8 + term_size nt \<le> hdr_capacity b"
    "i = (hdr_capacity b - (hdr_size b + 8 + term_size nt)) mod 2 ^ 14"
    by (auto split: option.splits)
  from assms(1,3) b have n: "n \<le> hdr_size b" by (simp add: prim_defs)
  let ?i' = "(i + n) mod 2 ^ 14"
  let ?b1 = "b\<lparr>hdr_size := hdr_size b - n\<rparr>"
  let ?h1 = "h\<lparr>cells := (cells h)(p - 8 \<mapsto> ?b1)\<rparr>"
  have u: "sub32 (hdr_size b) n = hdr_size b - n" using n b by (intro sub32_exact) auto
  from assms(1,4) b u
  have st: "set_term nt ?h1 (MedianCore p ?i') (hdr_size b - n) = Inr (h', c')"
    by (simp add: decrease_size_def prim_defs del: bindE_eq_Inr)
  have "hdr_capacity b - (hdr_size b - n + 8 + term_size nt)
      = hdr_capacity b - (hdr_size b + 8 + term_size nt) + n"
    using n b by simp
  then have i': "?i' = (hdr_capacity b - (hdr_size b - n + 8 + term_size nt)) mod 2 ^ 14"
    unfolding b(7) by (simp only: mod_add_left_eq)
  show ?thesis
    using st b n i' assms(1)
    by (auto simp: same_buffer_def prim_defs split: if_splits)
qed

lemma decrease_size_ok:
  assumes "wf nt h c" "n \<le> size_core h c" "decrease_size nt h c n = Inr (h', c')"
  shows "wf nt h' c' \<and> size_core h' c' = size_core h c - n \<and>
    buffer_of h' c' = (if nt then write_range (buffer_of h c) (size_core h c - n) 1 (\<lambda>_. 0)
                       else buffer_of h c) \<and> same_buffer h c h' c'"
proof (cases c)
  case (InternalCore d s) then show ?thesis using assms by (rule decrease_size_Internal)
next
  case (ShortCore p cp s) then show ?thesis using assms by (rule decrease_size_Short)
next
  case (MedianCore p i) then show ?thesis using assms by (rule decrease_size_Median)
next
  case (LongCore p i) then show ?thesis using assms by (rule decrease_size_Long)
qed

text \<open>A core whose block is the same in two heaps reads the same in both.\<close>

lemma view_cong:
  assumes "is_external c \<Longrightarrow> cells h' (get_buffer_ptr c) = cells h (get_buffer_ptr c)"
    "shape nt h c"
  shows "size_core h' c = size_core h c" "buffer_of h' c = buffer_of h c"
    "data_limit h' c = data_limit h c" "capacity_core nt h' c = capacity_core nt h c"
    "idle_capacity nt h' c = idle_capacity nt h c"
    "get_capacity_and_size nt h' c = get_capacity_and_size nt h c"
  using assms
  by (cases c; auto simp: prim_defs is_external_def split: option.splits)+

lemma shape_cong:
  assumes "is_external c \<Longrightarrow> cells h' (get_buffer_ptr c) = cells h (get_buffer_ptr c)"
    "next_free h \<le> next_free h'" "shape nt h c"
  shows "shape nt h' c"
  using assms by (cases c; auto simp: is_external_def split: option.splits)

lemma wf_cong:
  assumes "is_external c \<Longrightarrow> cells h' (get_buffer_ptr c) = cells h (get_buffer_ptr c)"
    "next_free h \<le> next_free h'" "wf nt h c"
  shows "wf nt h' c"
  using assms by (cases c; auto simp: is_external_def split: option.splits)

lemma wf_shape: "wf nt h c \<Longrightarrow> shape nt h c"
  by (simp add: wf_iff_shape)

lemma wf_ptr_less: "wf nt h c \<Longrightarrow> is_external c \<Longrightarrow> get_buffer_ptr c < next_free h"
  by (cases c; auto simp: is_external_def split: option.splits)

lemma shape_ptr_less: "shape nt h c \<Longrightarrow> is_external c \<Longrightarrow> get_buffer_ptr c < next_free h"
  by (cases c; auto simp: is_external_def split: option.splits)

section \<open>Allocation\<close>

lemma short_cap_field:
  assumes "8 \<le> bsz" "bsz \<le> 256" "8 dvd bsz"
  shows "sub32 (bsz div 8) 1 mod 2 ^ 8 mod 2 ^ 5 = bsz div 8 - 1" "bsz div 8 - 1 < 32"
    "(bsz div 8 - 1 + 1) * 8 = bsz"
proof -
  have d: "1 \<le> bsz div 8" "bsz div 8 \<le> 32" using assms by auto
  then have "sub32 (bsz div 8) 1 = bsz div 8 - 1" by (intro sub32_exact) auto
  then show "sub32 (bsz div 8) 1 mod 2 ^ 8 mod 2 ^ 5 = bsz div 8 - 1" using d by simp
  show "bsz div 8 - 1 < 32" using d by simp
  show "(bsz div 8 - 1 + 1) * 8 = bsz" using d assms(3) by auto
qed

lemma select_Short_bounds:
  assumes "core_type (calculate_new_buffer_size nt m) = Short"
  shows "8 \<le> buffer_size (calculate_new_buffer_size nt m)"
    "buffer_size (calculate_new_buffer_size nt m) \<le> 256"
    "8 dvd buffer_size (calculate_new_buffer_size nt m)"
    "m + term_size nt \<le> buffer_size (calculate_new_buffer_size nt m)"
  using select_Short[OF assms]
  by (auto simp: max_short_buffer_size_def internal_buffer_size_def term_size_def split: if_splits)

lemma select_Median_bounds:
  assumes "core_type (calculate_new_buffer_size nt m) = Median"
  shows "272 \<le> buffer_size (calculate_new_buffer_size nt m)"
    "buffer_size (calculate_new_buffer_size nt m) \<le> 16392"
    "8 dvd buffer_size (calculate_new_buffer_size nt m)"
    "m + 8 + term_size nt \<le> buffer_size (calculate_new_buffer_size nt m)"
  using select_Median[OF assms]
  by (auto simp: max_short_buffer_size_def term_size_def split: if_splits)

lemma alloc_ext:
  assumes "allocate_new_external_buffer nt h (calculate_new_buffer_size nt m) old = Inr (h1, c1)"
    "old < 2 ^ 32"
  shows "shape nt h1 c1 \<and> get_buffer_ptr c1 = next_free h \<and> next_free h < next_free h1 \<and>
    (\<forall>q. q \<noteq> next_free h \<longrightarrow> cells h1 q = cells h q) \<and> is_external c1 \<and>
    get_core_type c1 = core_type_value (core_type (calculate_new_buffer_size nt m)) \<and>
    data_limit h1 c1 = buffer_size (calculate_new_buffer_size nt m) - data_offset c1 \<and>
    size_core h1 c1 = (if get_core_type c1 = 1 then old mod 2 ^ 9 else old)"
proof (cases "core_type (calculate_new_buffer_size nt m)")
  case Internal
  with assms show ?thesis by (simp add: allocate_new_external_buffer_def)
next
  case Short
  note sb = select_Short_bounds[OF Short]
  note f = short_cap_field[OF sb(1,2,3)]
  have g: "sub32 (buffer_size (calculate_new_buffer_size nt m) div 8) (Suc 0) mod 256 mod 32
      = buffer_size (calculate_new_buffer_size nt m) div 8 - 1"
    using f(1) by simp
  have k: "old mod 65536 mod 512 = old mod 512"
    by (rule mod_mod_cancel) simp
  from assms Short f(2,3) show ?thesis
    by (auto simp: allocate_new_external_buffer_def malloc_def is_external_def g k block_at_def
        Let_def split: prod.splits)
next
  case Median
  note sb = select_Median_bounds[OF Median]
  have k: "\<And>x::nat. x mod 65536 mod 16384 = x mod 16384"
    by (rule mod_mod_cancel) simp
  from assms Median sb show ?thesis
    by (auto simp: allocate_new_external_buffer_def malloc_def is_external_def write_header_def
        calculate_median_long_real_idle_capacity_def prim_defs add.commute k
        split: prod.splits if_splits)
next
  case Long
  note sl = select_Long(2,3)[OF Long]
  from assms Long sl show ?thesis
    by (auto simp: allocate_new_external_buffer_def malloc_def is_external_def write_header_def
        prim_defs split: prod.splits if_splits)
qed

lemma cap_field_Suc: "C < 32 \<Longrightarrow> sub32 (Suc C) (Suc 0) mod 256 mod 32 = C"
  by (simp add: sub32_exact)

lemma initial_allocate_ok:
  assumes "initial_allocate nt h (calculate_new_buffer_size nt m) m = Inr (h1, c1)"
    "m < 2 ^ 32"
  shows "shape nt h1 c1 \<and> (is_external c1 \<longrightarrow> get_buffer_ptr c1 = next_free h) \<and>
    next_free h \<le> next_free h1 \<and>
    (\<forall>q. q \<noteq> next_free h \<longrightarrow> cells h1 q = cells h q) \<and>
    get_core_type c1 = core_type_value (core_type (calculate_new_buffer_size nt m)) \<and>
    data_limit h1 c1 = (if is_external c1
       then buffer_size (calculate_new_buffer_size nt m) - data_offset c1 else 7) \<and>
    size_core h1 c1 = m \<and> (nt \<longrightarrow> m + 1 \<le> data_limit h1 c1 \<and> buffer_of h1 c1 m = 0)"
proof (cases "core_type (calculate_new_buffer_size nt m)")
  case Internal
  then have "m \<le> 7" by (simp add: select_Internal internal_buffer_size_def split: if_splits)
  with assms Internal show ?thesis
    by (auto simp: initial_allocate_def is_external_def prim_defs split: if_splits)
next
  case Short
  note sb = select_Short_bounds[OF Short]
  note f = short_cap_field[OF sb(1,2,3)]
  have g: "sub32 (buffer_size (calculate_new_buffer_size nt m) div 8) (Suc 0) mod 256 mod 32
      = buffer_size (calculate_new_buffer_size nt m) div 8 - 1"
    using f(1) by simp
  have k: "m mod 65536 mod 512 = m" using sb(2,4) by simp
  define C where "C = buffer_size (calculate_new_buffer_size nt m) div 8 - 1"
  have C: "sub32 (buffer_size (calculate_new_buffer_size nt m) div 8) (Suc 0)
        mod 256 mod 32 = C" "C < 32" "buffer_size (calculate_new_buffer_size nt m) = (C + 1) * 8"
    unfolding C_def using g f(2) f(3)[symmetric] by simp_all
  from assms Short C(2,3) sb(4) show ?thesis
    by (auto simp: initial_allocate_def malloc_def is_external_def C(1) cap_field_Suc k prim_defs
        split: prod.splits if_splits)
next
  case Median
  note sb = select_Median_bounds[OF Median]
  have k: "\<And>x::nat. x mod 65536 mod 16384 = x mod 16384"
    by (rule mod_mod_cancel) simp
  from assms Median sb show ?thesis
    by (auto simp: initial_allocate_def malloc_def is_external_def write_header_def
        calculate_median_long_real_idle_capacity_def prim_defs add.commute k
        split: prod.splits if_splits)
next
  case Long
  note sl = select_Long(2,3)[OF Long]
  from assms Long sl show ?thesis
    by (auto simp: initial_allocate_def malloc_def is_external_def write_header_def
        prim_defs split: prod.splits if_splits)
qed

lemma release_other:
  assumes "shape nt h c1" "is_external c \<longrightarrow> get_buffer_ptr c \<noteq> get_buffer_ptr c1 \<or> \<not> is_external c1"
  shows "cells (release h c) (get_buffer_ptr c1) = cells h (get_buffer_ptr c1) \<or> \<not> is_external c1"
    "next_free (release h c) = next_free h"
  using assms by (auto simp: release_def free_def)

lemma wf_size_less: "wf nt h c \<Longrightarrow> size_core h c < 2 ^ 32"
  by (cases c; auto simp: prim_defs split: option.splits if_splits)

lemma wf_fits: "wf nt h c \<Longrightarrow> size_core h c + term_size nt \<le> data_limit h c"
  by (simp add: wf_iff_shape)

lemma wf_capacity:
  assumes "wf nt h c"
  shows "capacity_core nt h c = data_limit h c - term_size nt"
    "get_capacity_and_size nt h c = (capacity_core nt h c, size_core h c)"
  using assms
  by (cases c; auto simp: prim_defs u32_def sub32_exact split: option.splits if_splits)+

lemma realloc_steps:
  assumes wf: "wf nt h c"
    and al: "allocate_new_external_buffer nt h (calculate_new_buffer_size nt m) (size_core h c)
               = Inr (h1, c1)"
    and cp: "(if nc then store h1 c1 0 (size_core h c) (buffer_of h c) else Inr (h1, c1))
               = Inr (h2, c2)"
    and tw: "(if tmw then store h2 c2 (size_core h c) 1 (\<lambda>_. 0) else Inr (h2, c2))
               = Inr (h3, c3)"
  shows "shape nt (release h3 c) c3 \<and> next_free h < next_free (release h3 c) \<and>
    get_buffer_ptr c3 = next_free h \<and> is_external c3 \<and>
    get_core_type c3 = core_type_value (core_type (calculate_new_buffer_size nt m)) \<and>
    data_limit (release h3 c) c3 = buffer_size (calculate_new_buffer_size nt m) - data_offset c3 \<and>
    (nc \<or> size_core h c < 512 \<longrightarrow> size_core (release h3 c) c3 = size_core h c) \<and>
    (nc \<longrightarrow> size_core h c \<le> data_limit (release h3 c) c3 \<and>
       (\<forall>i < size_core h c. buffer_of (release h3 c) c3 i = buffer_of h c i)) \<and>
    (tmw \<longrightarrow> size_core h c + 1 \<le> data_limit (release h3 c) c3 \<and>
       buffer_of (release h3 c) c3 (size_core h c) = 0)"
proof -
  let ?old = "size_core h c"
  note a = alloc_ext[OF al wf_size_less[OF wf]]
  have s1: "shape nt h1 c1" using a by simp
  have c2: "shape nt h2 c2 \<and> size_core h2 c2 = size_core h1 c1 \<and>
    data_limit h2 c2 = data_limit h1 c1 \<and> get_core_type c2 = get_core_type c1 \<and>
    get_buffer_ptr c2 = get_buffer_ptr c1 \<and> next_free h2 = next_free h1 \<and>
    (nc \<longrightarrow> ?old \<le> data_limit h1 c1 \<and>
       buffer_of h2 c2 = write_range (buffer_of h1 c1) 0 ?old (buffer_of h c))"
  proof (cases nc)
    case True
    then have st: "store h1 c1 0 ?old (buffer_of h c) = Inr (h2, c2)" using cp by simp
    from store_ext[OF s1 st] show ?thesis by simp
  next
    case False
    then have "h2 = h1" "c2 = c1" using cp by simp_all
    then show ?thesis using s1 False by simp
  qed
  have c3: "shape nt h3 c3 \<and> size_core h3 c3 = size_core h1 c1 \<and>
    data_limit h3 c3 = data_limit h1 c1 \<and> get_core_type c3 = get_core_type c1 \<and>
    get_buffer_ptr c3 = get_buffer_ptr c1 \<and> next_free h3 = next_free h1 \<and>
    (tmw \<longrightarrow> ?old + 1 \<le> data_limit h1 c1 \<and>
       buffer_of h3 c3 = write_range (buffer_of h2 c2) ?old 1 (\<lambda>_. 0)) \<and>
    (\<not> tmw \<longrightarrow> buffer_of h3 c3 = buffer_of h2 c2)"
  proof (cases tmw)
    case True
    then have st: "store h2 c2 ?old 1 (\<lambda>_. 0) = Inr (h3, c3)" using tw by simp
    from store_ext[OF conjunct1[OF c2] st] c2 True show ?thesis by simp
  next
    case False
    then have "h3 = h2" "c3 = c2" using tw by simp_all
    then show ?thesis using c2 False by simp
  qed
  have sh3: "shape nt h3 c3" using c3 by simp
  have ext: "is_external c3" using a c3 by (simp add: is_external_def)
  have ptr: "get_buffer_ptr c3 = next_free h" using a c3 by simp
  have neq: "is_external c \<longrightarrow> get_buffer_ptr c \<noteq> get_buffer_ptr c3"
    using wf_ptr_less[OF wf] ptr by auto
  have cells: "cells (release h3 c) (get_buffer_ptr c3) = cells h3 (get_buffer_ptr c3)"
    using neq by (auto simp: release_def free_def)
  have nf: "next_free (release h3 c) = next_free h3" by (simp add: release_def free_def)
  note v = view_cong[OF cells sh3]
  have sh: "shape nt (release h3 c) c3"
    using shape_cong[OF cells _ sh3] nf by simp
  have small: "get_core_type c1 = 1 \<Longrightarrow> (nc \<or> ?old < 512) \<Longrightarrow> ?old mod 2 ^ 9 = ?old"
  proof -
    assume t: "get_core_type c1 = 1" and d: "nc \<or> ?old < 512"
    have "core_type (calculate_new_buffer_size nt m) = Short"
      using a t by (cases "core_type (calculate_new_buffer_size nt m)") auto
    from select_Short_bounds(2)[OF this] have "data_limit h1 c1 \<le> 256" using a by simp
    with d c2 have "?old < 512" by auto
    then show ?thesis by simp
  qed
  have sz: "nc \<or> ?old < 512 \<longrightarrow> size_core (release h3 c) c3 = ?old"
    using v(1) c3 a small by auto
  have lim: "data_limit (release h3 c) c3
      = buffer_size (calculate_new_buffer_size nt m) - data_offset c3"
  proof -
    have "data_offset c3 = data_offset c1"
      using c3 by (cases c3; cases c1; simp)
    then show ?thesis using v(3) c3 a by simp
  qed
  have b3: "buffer_of (release h3 c) c3 = buffer_of h3 c3" by (rule v(2))
  have cpy: "nc \<longrightarrow> ?old \<le> data_limit (release h3 c) c3 \<and>
       (\<forall>i < ?old. buffer_of (release h3 c) c3 i = buffer_of h c i)"
    using b3 c2 c3 v(3) by (cases tmw) (auto simp: write_range_apply)
  have trm: "tmw \<longrightarrow> ?old + 1 \<le> data_limit (release h3 c) c3 \<and>
       buffer_of (release h3 c) c3 ?old = 0"
    using b3 c3 v(3) by (auto simp: write_range_apply)
  have nfl: "next_free h < next_free (release h3 c)" using nf c3 a by simp
  have ty: "get_core_type c3 = core_type_value (core_type (calculate_new_buffer_size nt m))"
    using c3 a by simp
  show ?thesis
    using sh nfl ptr ext ty lim sz cpy trm by (intro conjI)
qed

section \<open>Reallocation\<close>

lemma buffer_reserve_ok:
  assumes wf: "wf nt h c" and br: "buffer_reserve nt tm nc h c new_cap = Inr (h', c')"
  shows "shape nt h' c' \<and> next_free h \<le> next_free h' \<and>
    (nc \<longrightarrow> size_core h' c' = size_core h c \<and> size_core h c \<le> data_limit h' c' \<and>
       (\<forall>i < size_core h c. buffer_of h' c' i = buffer_of h c i)) \<and>
    (nc \<and> (nt \<longrightarrow> tm) \<longrightarrow> wf nt h' c')"
proof (cases "new_cap > capacity_core nt h c")
  case False
  then have "h' = h" "c' = c" using br by (simp_all add: buffer_reserve_def wf_capacity[OF wf])
  then show ?thesis using wf wf_shape[OF wf] wf_fits[OF wf] by simp
next
  case True
  let ?old = "size_core h c"
  let ?tmw = "nt \<and> tm \<and> nc"
  from br True obtain h1 c1 h2 c2 h3 c3 where
    al: "allocate_new_external_buffer nt h (calculate_new_buffer_size nt new_cap) ?old = Inr (h1, c1)"
    and cp: "(if nc then store h1 c1 0 ?old (buffer_of h c) else Inr (h1, c1)) = Inr (h2, c2)"
    and tw: "(if ?tmw then store h2 c2 ?old 1 (\<lambda>_. 0) else Inr (h2, c2)) = Inr (h3, c3)"
    and res: "h' = release h3 c" "c' = c3"
    by (auto simp: buffer_reserve_def wf_capacity[OF wf] bindE_eq_Inr)
  note r = realloc_steps[OF wf al cp tw]
  have sh: "shape nt h' c'" using r res by simp
  have w: "nc \<and> (nt \<longrightarrow> tm) \<longrightarrow> wf nt h' c'"
    using r res by (auto simp: wf_iff_shape term_ok_def term_size_def)
  show ?thesis using r res w by auto
qed

lemma allocate_more_ok:
  assumes wf: "wf nt h c" and am: "allocate_more nt False h c n = Inr (h', c')"
  shows "shape nt h' c' \<and> next_free h \<le> next_free h' \<and>
    size_core h' c' = size_core h c \<and> size_core h c \<le> data_limit h' c' \<and>
    (\<forall>i < size_core h c. buffer_of h' c' i = buffer_of h c i)"
proof (cases "idle_capacity nt h c \<ge> n")
  case True
  then have "h' = h" "c' = c" using am by (simp_all add: allocate_more_def)
  then show ?thesis using wf_shape[OF wf] wf_fits[OF wf] by simp
next
  case False
  let ?old = "size_core h c"
  from am False obtain h1 c1 h2 c2 where
    al: "allocate_new_external_buffer nt h
           (calculate_new_buffer_size nt (growth_scale (u32 (?old + n)))) ?old = Inr (h1, c1)"
    and cp0: "store h1 c1 0 ?old (buffer_of h c) = Inr (h2, c2)"
    and res: "h' = release h2 c" "c' = c2"
    by (auto simp: allocate_more_def calculate_new_buffer_size_growth_def bindE_eq_Inr Let_def)
  have cp: "(if True then store h1 c1 0 ?old (buffer_of h c) else Inr (h1, c1)) = Inr (h2, c2)"
    using cp0 by simp
  have tw: "(if False then store h2 c2 ?old 1 (\<lambda>_. 0) else Inr (h2, c2)) = Inr (h2, c2)"
    by simp
  note r = realloc_steps[OF wf al cp tw]
  show ?thesis using r res by auto
qed

section \<open>The invariant through the public operations\<close>

lemma wf_assign:
  assumes wf: "wf nt h c" and op: "assign nt h c bs = Inr (h', c')"
  shows "wf nt h' c'"
proof -
  from op obtain h1 c1 h2 c2 where
    br: "buffer_reserve nt False False h c (length bs) = Inr (h1, c1)"
    and st: "store h1 c1 0 (length bs) (\<lambda>i. bs ! i) = Inr (h2, c2)"
    and ss: "set_size nt h2 c2 (length bs) = Inr (h', c')"
    by (auto simp: assign_def bindE_eq_Inr Let_def)
  have s1: "shape nt h1 c1" using buffer_reserve_ok[OF wf br] by simp
  note s2 = store_ext[OF s1 st]
  show ?thesis using set_size_ok(1)[OF s2(1) _ ss] s2(3,4) by simp
qed

lemma wf_append:
  assumes wf: "wf nt h c" and op: "append_chars nt h c bs = Inr (h', c')"
  shows "wf nt h' c'"
proof (cases "length bs = 0")
  case True
  then show ?thesis using op wf by (simp add: append_chars_def)
next
  case False
  with op obtain h1 c1 h2 c2 where
    am: "allocate_more nt False h c (length bs) = Inr (h1, c1)"
    and st: "store h1 c1 (size_core h1 c1) (length bs) (\<lambda>i. bs ! i) = Inr (h2, c2)"
    and inc: "increase_size nt h2 c2 (length bs) = Inr (h', c')"
    by (auto simp: append_chars_def bindE_eq_Inr Let_def)
  have s1: "shape nt h1 c1" using allocate_more_ok[OF wf am] by simp
  note s2 = store_ext[OF s1 st]
  have "size_core h2 c2 + length bs \<le> data_limit h2 c2" using s2(2,3,4) by simp
  from increase_size_ok[OF s2(1) this inc] show ?thesis by simp
qed

lemma wf_insert:
  assumes wf: "wf nt h c" and op: "insert_chars nt h c index bs = Inr (h', c')"
  shows "wf nt h' c'"
proof (cases "length bs = 0")
  case True
  then show ?thesis using op wf by (simp add: insert_chars_def)
next
  case False
  let ?old = "size_core h c"
  let ?n = "length bs"
  from False op have idx: "index \<le> ?old"
    by (auto simp: insert_chars_def Let_def split: if_splits)
  with False op obtain h1 c1 h2 c2 h3 c3 where
    am: "allocate_more nt False h c ?n = Inr (h1, c1)"
    and mv: "(if index < ?old
              then store h1 c1 (index + ?n) (?old - index) (\<lambda>i. buffer_of h1 c1 (index + i))
              else Inr (h1, c1)) = Inr (h2, c2)"
    and st: "store h2 c2 index ?n (\<lambda>i. bs ! i) = Inr (h3, c3)"
    and inc: "increase_size nt h3 c3 ?n = Inr (h', c')"
    by (auto simp: insert_chars_def bindE_eq_Inr Let_def)
  note a = allocate_more_ok[OF wf am]
  have s1: "shape nt h1 c1" using a by simp
  have s2: "shape nt h2 c2 \<and> size_core h2 c2 = ?old \<and> data_limit h2 c2 = data_limit h1 c1 \<and>
     (index < ?old \<longrightarrow> ?old + ?n \<le> data_limit h1 c1)"
  proof (cases "index < ?old")
    case True
    then have m: "store h1 c1 (index + ?n) (?old - index) (\<lambda>i. buffer_of h1 c1 (index + i))
        = Inr (h2, c2)" using mv by simp
    from store_ext[OF s1 m] a True show ?thesis by simp
  next
    case False
    then have "h2 = h1" "c2 = c1" using mv by simp_all
    then show ?thesis using s1 a False by simp
  qed
  note s3 = store_ext[OF conjunct1[OF s2] st]
  have "size_core h3 c3 + ?n \<le> data_limit h3 c3"
    using s3(2,3,4) s2 idx by (cases "index < ?old") auto
  from increase_size_ok[OF s3(1) this inc] show ?thesis by simp
qed

lemma wf_erase:
  assumes wf: "wf nt h c" and op: "erase nt h c index count = Inr (h', c')"
  shows "wf nt h' c'"
proof -
  let ?old = "size_core h c"
  let ?rc = "min count (u32 (?old - index))"
  from op have idx: "index \<le> ?old" by (auto simp: erase_def Let_def split: if_splits)
  show ?thesis
  proof (cases "?rc = 0")
    case True
    then show ?thesis using op wf idx by (simp add: erase_def Let_def)
  next
    case False
    let ?new = "?old - ?rc"
    let ?right = "?old - index - ?rc"
    have e: "erase nt h c index count =
        bindE (if ?right > 0
               then store h c index (u32 ?right) (\<lambda>i. buffer_of h c (index + ?rc + i))
               else Inr (h, c)) (\<lambda>(h1, c1). set_size nt h1 c1 (u32 ?new))"
      using False idx unfolding erase_def Let_def by (simp only: if_False not_less[symmetric] if_True)
    from op[unfolded e] obtain h1 c1 where
      mv: "(if ?right > 0
            then store h c index (u32 ?right) (\<lambda>i. buffer_of h c (index + ?rc + i))
            else Inr (h, c)) = Inr (h1, c1)"
      and ss: "set_size nt h1 c1 (u32 ?new) = Inr (h', c')"
      unfolding bindE_eq_Inr by auto
    have s1: "shape nt h1 c1 \<and> data_limit h1 c1 = data_limit h c"
    proof (cases "?right > 0")
      case True
      then have m: "store h c index (u32 ?right) (\<lambda>i. buffer_of h c (index + ?rc + i))
          = Inr (h1, c1)" using mv by simp
      from store_ext[OF wf_shape[OF wf] m] show ?thesis by simp
    next
      case False
      then have "h1 = h" "c1 = c" using mv by simp_all
      then show ?thesis using wf_shape[OF wf] by simp
    qed
    have "u32 ?new = ?new" using wf_size_less[OF wf] by (intro u32_id) simp
    moreover have "?new \<le> data_limit h1 c1" using s1 wf_fits[OF wf] by simp
    ultimately show ?thesis using set_size_ok(1)[OF conjunct1[OF s1] _ ss] by simp
  qed
qed

lemma wf_resize:
  assumes wf: "wf nt h c" and op: "resize nt h c count ch = Inr (h', c')"
  shows "wf nt h' c'"
proof (cases "count \<le> size_core h c")
  case True
  then have ss: "set_size nt h c count = Inr (h', c')"
    using op by (simp add: resize_def wf_capacity[OF wf])
  have "count \<le> data_limit h c" using True wf_fits[OF wf] by simp
  from set_size_ok(1)[OF wf_shape[OF wf] this ss] show ?thesis .
next
  case False
  let ?old = "size_core h c"
  from False op obtain h1 c1 h2 c2 where
    br: "(if count > capacity_core nt h c then buffer_reserve nt False True h c count
          else Inr (h, c)) = Inr (h1, c1)"
    and st: "store h1 c1 ?old (count - ?old) (\<lambda>_. ch) = Inr (h2, c2)"
    and ss: "set_size nt h2 c2 count = Inr (h', c')"
    by (auto simp: resize_def wf_capacity[OF wf] bindE_eq_Inr)
  have s1: "shape nt h1 c1"
  proof (cases "count > capacity_core nt h c")
    case True
    then have "buffer_reserve nt False True h c count = Inr (h1, c1)" using br by simp
    from buffer_reserve_ok[OF wf this] show ?thesis by simp
  next
    case False
    then have "h1 = h" "c1 = c" using br by simp_all
    then show ?thesis using wf_shape[OF wf] by simp
  qed
  note s2 = store_ext[OF s1 st]
  have "count \<le> data_limit h2 c2" using s2(3,4) False by simp
  from set_size_ok(1)[OF s2(1) this ss] show ?thesis .
qed

lemma wf_reserve:
  assumes wf: "wf nt h c" and op: "reserve nt h c new_cap = Inr (h', c')"
  shows "wf nt h' c'"
  using buffer_reserve_ok[OF wf op[unfolded reserve_def]] by simp

lemma wf_clear:
  assumes wf: "wf nt h c" and op: "clear nt h c = Inr (h', c')"
  shows "wf nt h' c'"
  using set_size_ok(1)[OF wf_shape[OF wf] _ op[unfolded clear_def]] by simp

lemma fresh_then_store:
  assumes ia: "initial_allocate nt h (calculate_new_buffer_size nt m) m = Inr (h1, c1)"
    and m: "m < 2 ^ 32"
    and st: "store h1 c1 0 m f = Inr (h2, c2)"
  shows "wf nt h2 c2 \<and> size_core h2 c2 = m \<and> (\<forall>i < m. buffer_of h2 c2 i = f i) \<and>
    get_core_type c2 = core_type_value (core_type (calculate_new_buffer_size nt m)) \<and>
    (is_external c2 \<longrightarrow> get_buffer_ptr c2 = next_free h) \<and> next_free h \<le> next_free h2 \<and>
    data_limit h2 c2 = (if is_external c2
       then buffer_size (calculate_new_buffer_size nt m) - data_offset c2 else 7)"
proof -
  note a = initial_allocate_ok[OF ia m]
  have s1: "shape nt h1 c1" using a by simp
  note s2 = store_ext[OF s1 st]
  have ext: "is_external c2 = is_external c1" using s2(6) by (simp add: is_external_def)
  have off: "data_offset c2 = data_offset c1" using s2(6,7) by (cases c2; cases c1; simp)
  have w: "wf nt h2 c2"
    using s2 a by (auto simp: wf_iff_shape term_ok_def term_size_def write_range_apply)
  have b: "\<forall>i < m. buffer_of h2 c2 i = f i" using s2(5) by (simp add: write_range_apply)
  show ?thesis using w b s2 a ext off by auto
qed

lemma select_size_less: "buffer_size (calculate_new_buffer_size nt m) < 2 ^ 32"
  by (auto simp: calculate_new_buffer_size_def u32_def internal_buffer_size_def)

lemma construct_from_ok:
  assumes op: "construct_from nt h bs = Inr (h', c')"
  shows "wf nt h' c' \<and> size_core h' c' = length bs \<and> string_bytes h' c' = bs \<and>
    length bs < 2 ^ 32 \<and>
    get_core_type c' = core_type_value (core_type (calculate_new_buffer_size nt (length bs)))"
proof -
  let ?m = "u32 (length bs)"
  have m: "?m < 2 ^ 32" by (simp add: u32_def)
  from op obtain h1 c1 where
    ia: "initial_allocate nt h (calculate_new_buffer_size nt ?m) ?m = Inr (h1, c1)"
    and st: "store h1 c1 0 (length bs) (\<lambda>i. bs ! i) = Inr (h', c')"
    by (auto simp: construct_from_def initial_allocate_size_def bindE_eq_Inr Let_def u32_id[OF m])
  note a = initial_allocate_ok[OF ia m]
  have s1: "shape nt h1 c1" using a by simp
  have "length bs \<le> data_limit h1 c1" using store_ext(3)[OF s1 st] by simp
  moreover have "data_limit h1 c1 < 2 ^ 32"
    using a select_size_less[of nt ?m] by (auto split: if_splits)
  ultimately have len: "length bs < 2 ^ 32" by simp
  then have e: "?m = length bs" by (simp add: u32_id)
  note f = fresh_then_store[OF ia[unfolded e] len st]
  have "string_bytes h' c' = bs"
    using f by (auto simp: string_bytes_def intro!: nth_equalityI)
  then show ?thesis using f len by simp
qed

lemma select_le_Short:
  "sz \<le> max_short_buffer_size nt \<Longrightarrow>
     core_type_value (core_type (calculate_new_buffer_size nt sz)) \<le> 1"
  by (simp add: calculate_new_buffer_size_def)

lemma select_le_Median:
  "sz \<le> 16383 \<Longrightarrow> core_type_value (core_type (calculate_new_buffer_size nt sz)) \<le> 2"
  by (simp add: calculate_new_buffer_size_def max_median_buffer_size_def)

lemma core_type_value_le: "core_type_value t \<le> 3"
  by (cases t) auto

lemma select_16384:
  "buffer_size (calculate_new_buffer_size False 16384) = 16392"
  by (simp add: calculate_new_buffer_size_def AlignUpTo_8 u32_def internal_buffer_size_def
      max_short_buffer_size_def max_median_buffer_size_def median_long_buffer_header_size_def)

lemma dvd8_bound:
  assumes "8 dvd (n::nat)" "n < 2 ^ 32"
  shows "n + 8 \<le> 2 ^ 32"
proof -
  from assms(1) obtain k where k: "n = 8 * k" by (auto simp: dvd_def)
  with assms(2) have "k < 2 ^ 29" by simp
  then have "k + 1 \<le> 2 ^ 29" by simp
  then have "8 * (k + 1) \<le> 8 * 2 ^ 29" by (simp only: mult_le_cancel1) simp
  then show ?thesis using k by simp
qed

lemma shrink_tier:
  assumes wf: "wf nt h c"
    and gt: "capacity_core nt h c > buffer_size (calculate_new_buffer_size nt (size_core h c))"
  shows "core_type_value (core_type (calculate_new_buffer_size nt (size_core h c)))
           \<le> get_core_type c \<and> size_core h c + 8 + term_size nt + 7 < 2 ^ 32"
proof (cases c)
  case (InternalCore d s)
  with wf have "s \<le> internal_buffer_size nt" by simp
  then have "buffer_size (calculate_new_buffer_size nt s) = internal_buffer_size nt"
    by (simp add: calculate_new_buffer_size_def)
  with gt InternalCore show ?thesis by simp
next
  case (ShortCore p cp s)
  with wf have "s + term_size nt \<le> 256"
    by (auto split: option.splits)
  then have s: "s \<le> max_short_buffer_size nt"
    by (auto simp: term_size_def max_short_buffer_size_def split: if_splits)
  from select_le_Short[OF s] ShortCore s show ?thesis
    by (auto simp: term_size_def max_short_buffer_size_def split: if_splits)
next
  case (MedianCore p i)
  with wf obtain b where b: "cells h (p - 8) = Some b" "hdr_capacity b \<le> 16392"
    "hdr_size b + 8 + term_size nt \<le> hdr_capacity b"
    by (auto split: option.splits)
  have sz: "size_core h c = hdr_size b" using MedianCore b by (simp add: prim_defs)
  have cap: "capacity_core nt h c = hdr_capacity b - (8 + term_size nt)"
    using MedianCore b by (auto simp: prim_defs sub32_exact)
  show ?thesis
  proof (cases "hdr_size b \<le> 16383")
    case True
    from select_le_Median[OF True] MedianCore sz b show ?thesis by simp
  next
    case False
    then have e: "hdr_size b = 16384" "\<not> nt" using b by (auto simp: term_size_def split: if_splits)
    with gt sz cap b select_16384 show ?thesis by (simp add: term_size_def)
  qed
next
  case (LongCore p i)
  with wf obtain b where b: "cells h (p - 8) = Some b" "hdr_capacity b < 2 ^ 32"
    "8 dvd hdr_capacity b" "hdr_size b + 8 + term_size nt \<le> hdr_capacity b"
    by (auto split: option.splits)
  have sz: "size_core h c = hdr_size b" using LongCore b by (simp add: prim_defs)
  from dvd8_bound[OF b(3,2)] b(4) sz LongCore core_type_value_le show ?thesis
    by simp
qed

lemma store_total:
  assumes "shape nt h c" "off + n \<le> data_limit h c"
  shows "\<exists>h' c'. store h c off n f = Inr (h', c')"
  using assms
  by (cases c; auto simp: prim_defs split: option.splits)

lemma initial_allocate_total:
  assumes m: "m < 2 ^ 32" and no: "m + 8 + term_size nt + 7 < 2 ^ 32"
  shows "\<exists>h1 c1. initial_allocate nt h (calculate_new_buffer_size nt m) m = Inr (h1, c1) \<and>
    m + term_size nt \<le> data_limit h1 c1"
proof (cases "core_type (calculate_new_buffer_size nt m)")
  case Internal
  then have "m \<le> internal_buffer_size nt" by (simp add: select_Internal)
  with Internal show ?thesis
    by (auto simp: initial_allocate_def prim_defs split: if_splits)
next
  case Short
  note sb = select_Short_bounds[OF Short]
  from Short sb(4) show ?thesis
    by (auto simp: initial_allocate_def malloc_def prim_defs split: prod.splits if_splits)
next
  case Median
  note sb = select_Median_bounds[OF Median]
  from Median sb(1,4) show ?thesis
    by (auto simp: initial_allocate_def malloc_def write_header_def prim_defs
        split: prod.splits if_splits)
next
  case Long
  have e: "buffer_size (calculate_new_buffer_size nt m) = (m + 8 + term_size nt + 7) div 8 * 8"
    by (rule select_Long(4)[OF Long no])
  have "m + 8 + term_size nt \<le> (m + 8 + term_size nt + 7) div 8 * 8" by (rule round8_bounds(1))
  with e have r: "m + 8 + term_size nt \<le> buffer_size (calculate_new_buffer_size nt m)" by simp
  from Long r show ?thesis
    by (auto simp: initial_allocate_def malloc_def write_header_def prim_defs
        split: prod.splits if_splits)
qed

lemma release_frame:
  assumes "wf nt h0 c" "next_free h0 \<le> get_buffer_ptr c2 \<or> \<not> is_external c2"
  shows "is_external c2 \<Longrightarrow> cells (release h c) (get_buffer_ptr c2) = cells h (get_buffer_ptr c2)"
    "next_free (release h c) = next_free h"
  using assms wf_ptr_less[OF assms(1)]
  by (auto simp: release_def free_def)

lemma shrink_to_fit_ok:
  assumes wf: "wf nt h c"
  shows "\<exists>h' c'. shrink_to_fit nt h c = Inr (h', c') \<and> wf nt h' c' \<and>
    size_core h' c' = size_core h c \<and> string_bytes h' c' = string_bytes h c \<and>
    capacity_core nt h' c' \<le> capacity_core nt h c \<and> get_core_type c' \<le> get_core_type c"
proof (cases "capacity_core nt h c > buffer_size (calculate_new_buffer_size nt (size_core h c))")
  case False
  then have "shrink_to_fit nt h c = Inr (h, c)"
    by (simp add: shrink_to_fit_def wf_capacity[OF wf])
  then show ?thesis using wf by simp
next
  case True
  let ?sz = "size_core h c"
  let ?sel = "calculate_new_buffer_size nt ?sz"
  note t = shrink_tier[OF wf True]
  have sz: "?sz < 2 ^ 32" by (rule wf_size_less[OF wf])
  have no: "?sz + 8 + term_size nt + 7 < 2 ^ 32" using t by simp
  from initial_allocate_total[OF sz no] obtain h1 c1 where
    ia: "initial_allocate nt h ?sel ?sz = Inr (h1, c1)"
    and room: "?sz + term_size nt \<le> data_limit h1 c1" by blast
  have s1: "shape nt h1 c1" using initial_allocate_ok[OF ia sz] by simp
  have "0 + ?sz \<le> data_limit h1 c1" using room by simp
  from store_total[OF s1 this] obtain h2 c2 where
    st: "store h1 c1 0 ?sz (buffer_of h c) = Inr (h2, c2)" by blast
  note f = fresh_then_store[OF ia sz st]
  have run: "shrink_to_fit nt h c = Inr (release h2 c, c2)"
    using True ia st by (simp add: shrink_to_fit_def wf_capacity[OF wf] u32_id[OF sz] swap_core_def)
  have fr: "next_free h \<le> get_buffer_ptr c2 \<or> \<not> is_external c2" using f by auto
  note rf = release_frame[OF wf fr, of h2]
  have w2: "wf nt h2 c2" using f by simp
  have w: "wf nt (release h2 c) c2"
    using wf_cong[OF rf(1) _ w2] rf(2) by simp
  note v = view_cong[OF rf(1) wf_shape[OF w2]]
  have size: "size_core (release h2 c) c2 = ?sz" using v(1) f by simp
  have bytes: "string_bytes (release h2 c) c2 = string_bytes h c"
    using f v(2) by (simp add: string_bytes_def size)
  have cap: "capacity_core nt (release h2 c) c2 \<le> capacity_core nt h c"
  proof (cases "is_external c2")
    case True
    have "capacity_core nt (release h2 c) c2 = data_limit h2 c2 - term_size nt"
      using wf_capacity(1)[OF w] v(3) by simp
    also have "\<dots> \<le> buffer_size ?sel" using f True by simp
    finally show ?thesis using \<open>capacity_core nt h c > buffer_size ?sel\<close> by simp
  next
    case False
    then have i: "core_type ?sel = Internal"
      using f by (cases "core_type ?sel") (auto simp: is_external_def)
    then have "?sz \<le> internal_buffer_size nt" by (simp add: select_Internal)
    then have "buffer_size ?sel = internal_buffer_size nt"
      by (simp add: calculate_new_buffer_size_def)
    moreover have "capacity_core nt (release h2 c) c2 = internal_buffer_size nt"
      using False by (cases c2) (auto simp: is_external_def)
    ultimately show ?thesis using \<open>capacity_core nt h c > buffer_size ?sel\<close> by simp
  qed
  have tier: "get_core_type c2 \<le> get_core_type c" using f t by simp
  show ?thesis using run w size bytes cap tier by blast
qed

lemma wf_shrink_to_fit:
  assumes wf: "wf nt h c" and op: "shrink_to_fit nt h c = Inr (h', c')"
  shows "wf nt h' c'"
  using shrink_to_fit_ok[OF wf] op by auto

lemma wf_construct_empty: "wf nt h zero_core"
  by (simp add: zero_core_def)

lemma wf_apply_op:
  assumes "wf nt h c" "apply_op nt opn (h, c) = Inr (h', c')"
  shows "wf nt h' c'"
  using assms
  by (cases opn)
    (auto intro: wf_assign wf_append wf_insert wf_erase wf_resize wf_reserve wf_shrink_to_fit
      wf_clear)

lemma reachable_wf: "reachable nt s \<Longrightarrow> wf nt (fst s) (snd s)"
proof (induction rule: reachable.induct)
  case (r_empty h)
  then show ?case by (simp add: construct_empty_def wf_construct_empty)
next
  case (r_construct h bs s)
  then show ?case using construct_from_ok[of nt h bs "fst s" "snd s"] by simp
next
  case (r_op s opn s')
  then show ?case using wf_apply_op[of nt "fst s" "snd s" opn "fst s'" "snd s'"] by simp
next
  case (r_swap_this h a b)
  then show ?case by (simp add: swap_core_def)
next
  case (r_swap_other h a b)
  then show ?case by (simp add: swap_core_def)
next
  case (r_move_new h gone h' new gone')
  then show ?case by (auto simp: move_construct_def move_core_def)
next
  case (r_move_gone h gone h' new gone')
  then show ?case by (auto simp: move_construct_def move_core_def wf_construct_empty)
next
  case (r_move_assign_this h this other h' this' other')
  then have e: "h' = release h this" "this' = other"
    by (auto simp: move_assign_def move_construct_def move_core_def)
  from r_move_assign_this have w: "wf nt h other" "wf nt h this" by simp_all
  have c: "is_external other \<Longrightarrow>
      cells (release h this) (get_buffer_ptr other) = cells h (get_buffer_ptr other)"
    using r_move_assign_this(3) by (auto simp: release_def free_def)
  have "wf nt (release h this) other"
    by (rule wf_cong[OF c _ w(1)]) (simp_all add: release_def free_def)
  then show ?case using e by simp
next
  case (r_move_assign_other h this other h' this' other')
  then show ?case by (auto simp: move_assign_def move_construct_def move_core_def wf_construct_empty)
qed

section \<open>Evaluation on concrete inputs\<close>

lemma growth_scale_small: "n < 2 ^ 22 \<Longrightarrow> growth_scale n = 3 * n div 2"
  by (simp add: growth_scale_def round_float24_def)

lemmas eval_defs = append_chars_def allocate_more_def calculate_new_buffer_size_growth_def
  calculate_new_buffer_size_def allocate_new_external_buffer_def malloc_def increase_size_def
  prim_defs sub32_def u32_def AlignUpTo_8 growth_scale_small example_heap_def construct_empty_def
  zero_core_def release_def is_external_def free_def max_short_buffer_size_def
  max_median_buffer_size_def median_long_buffer_header_size_def

text \<open>
  The value of \<open>growth_scale\<close> at a size whose product with 1.5 no longer fits 32 bits:
  both conversions are exact there.
\<close>

lemma bit_length_eq:
  "2 ^ k \<le> n \<Longrightarrow> n < 2 ^ Suc k \<Longrightarrow> bit_length n = Suc k"
proof (induction k arbitrary: n)
  case 0
  then have "n = 1" by simp
  then show ?case by (simp add: bit_length.simps)
next
  case (Suc k)
  have a: "2 ^ k \<le> n div 2" using Suc.prems(1) by simp
  have b: "n div 2 < 2 ^ Suc k" using Suc.prems(2) by simp
  have "(0::nat) < 2 ^ Suc k" by simp
  then have "n \<noteq> 0" using Suc.prems(1) by linarith
  then have "bit_length n = Suc (bit_length (n div 2))" by (subst bit_length.simps) simp
  then show ?case using Suc.IH[OF a b] by simp
qed

lemma round_float24_exact:
  assumes "2 ^ (23 + k) \<le> m" "m < 2 ^ (24 + k)" "2 ^ k dvd m"
  shows "round_float24 m = m"
proof -
  have bl: "bit_length m = Suc (23 + k)"
    by (rule bit_length_eq) (use assms in simp_all)
  have r: "m mod 2 ^ k = 0" using assms(3) by simp
  have q: "m div 2 ^ k * 2 ^ k = m" using assms(3) by simp
  show ?thesis
  proof (cases "m < 2 ^ 24")
    case True
    then show ?thesis by (simp add: round_float24_def)
  next
    case False
    then show ?thesis by (simp add: round_float24_def bl r q Let_def)
  qed
qed

lemma growth_big: "growth_scale 3221225472 = 4831838208"
proof -
  have a: "round_float24 3221225472 = 3221225472"
    by (rule round_float24_exact[where k = 8]) simp_all
  have b: "round_float24 9663676416 = 9663676416"
    by (rule round_float24_exact[where k = 10]) simp_all
  show ?thesis by (simp add: growth_scale_def a b)
qed

lemmas eval_reserve = reserve_def buffer_reserve_def shrink_to_fit_def initial_allocate_def
  swap_core_def string_bytes_def internal_buffer_size_def

lemmas eval_more = eval_reserve eval_defs calculate_median_long_real_idle_capacity_def
  write_header_def resize_def set_size_def

text \<open>
  In a state that the operations before it have returned, the size is within the
  capacity: it is what the invariant says.
\<close>

lemma reachable_size_le_capacity:
  assumes "reachable nt s"
  shows "size_core (fst s) (snd s) \<le> capacity_core nt (fst s) (snd s)"
proof -
  have w: "wf nt (fst s) (snd s)" by (rule reachable_wf[OF assms])
  from wf_fits[OF w] wf_capacity(1)[OF w] show ?thesis by simp
qed

section \<open>The claims\<close>

text \<open>
  C1. \<^verbatim>\<open>size() <= capacity()\<close> is to hold after every sequence of public operations.
  With \<^verbatim>\<open>NullTerminated = false\<close> the sequence default construction,
  \<^verbatim>\<open>reserve(16383)\<close>, \<^verbatim>\<open>append\<close> of one byte does not get that far. The reserve
  returns a Median string of size 0 and capacity 16384 whose cached idle capacity reads 0,
  since 16384 does not fit the 14-bit field. The append then finds no idle capacity, asks
  the selector for \<open>(0 + 1) * 1.5 = 1\<close> byte, is answered Internal, and
  \<^verbatim>\<open>allocate_new_external_buffer\<close> runs into \<^verbatim>\<open>__builtin_unreachable()\<close>: the call has no
  defined result, and there is no state in which the inequality could hold.
\<close>

theorem append_after_reserve_faults:
  "\<exists>h c. apply_op False (Reserve 16383) (construct_empty example_heap) = Inr (h, c) \<and>
     get_core_type c = 2 \<and> size_core h c = 0 \<and> capacity_core False h c = 16384 \<and>
     idle_capacity False h c = 0 \<and>
     apply_op False (Append [97]) (h, c) = Inl MemoryFault"
  by (simp add: eval_more del: bindE_eq_Inr)

lemma set_size_term:
  assumes "shape True h c" "set_size True h c n = Inr (h', c')"
  shows "term_ok h' c'"
  using assms
  by (cases c; auto simp: set_size_def term_ok_def prim_defs split: option.splits if_splits)

lemma increase_size_term:
  assumes "shape True h c" "increase_size True h c n = Inr (h', c')"
  shows "term_ok h' c'"
  using assms
  by (cases c; auto simp: increase_size_def term_ok_def prim_defs split: option.splits if_splits)

lemma decrease_size_term:
  assumes "shape True h c" "decrease_size True h c n = Inr (h', c')"
  shows "term_ok h' c'"
  using assms
  by (cases c; auto simp: decrease_size_def term_ok_def prim_defs split: option.splits if_splits)

lemma initial_allocate_term:
  assumes "initial_allocate_size True h n = Inr (h', c')" "n < 2 ^ 32"
  shows "term_ok h' c'"
  using initial_allocate_ok[of True h n h' c'] assms
  by (simp add: initial_allocate_size_def u32_id term_ok_def)

text \<open>
  C2. With the terminator policy enabled, the byte at position \<^verbatim>\<open>size()\<close> is zero in
  every reachable state, hence after construction and after every public mutating
  operation that returns (assign, append, insert, erase, resize, reserve, shrink_to_fit,
  clear); and it is zero after \<^verbatim>\<open>set_size\<close>, \<^verbatim>\<open>increase_size\<close>, \<^verbatim>\<open>decrease_size\<close>
  on a reachable state and after \<^verbatim>\<open>initial_allocate\<close>, in every tier.
\<close>

theorem terminator_after_mutation:
  assumes "reachable True (h, c)"
  shows "term_ok h c \<and>
    (\<forall>opn h' c'. apply_op True opn (h, c) = Inr (h', c') \<longrightarrow> term_ok h' c') \<and>
    (\<forall>n h' c'. set_size True h c n = Inr (h', c') \<longrightarrow> term_ok h' c') \<and>
    (\<forall>n h' c'. increase_size True h c n = Inr (h', c') \<longrightarrow> term_ok h' c') \<and>
    (\<forall>n h' c'. decrease_size True h c n = Inr (h', c') \<longrightarrow> term_ok h' c') \<and>
    (\<forall>h0 n h' c'. n < 2 ^ 32 \<and> initial_allocate_size True h0 n = Inr (h', c') \<longrightarrow>
       term_ok h' c')"
proof -
  have w: "wf True h c" using reachable_wf[OF assms] by simp
  have s: "shape True h c" by (rule wf_shape[OF w])
  have t: "term_ok h c" using w by (simp add: wf_iff_shape)
  have o: "\<forall>opn h' c'. apply_op True opn (h, c) = Inr (h', c') \<longrightarrow> term_ok h' c'"
    using wf_apply_op[OF w] by (auto simp: wf_iff_shape)
  show ?thesis
    using t o set_size_term[OF s] increase_size_term[OF s] decrease_size_term[OF s]
      initial_allocate_term
    by blast
qed

theorem terminator_after_mutation_witness:
  "reachable True (example_heap, zero_core) \<and> term_ok example_heap zero_core \<and>
   (case apply_op True (Append [1, 2, 3, 4, 5, 6, 7]) (example_heap, zero_core) of
      Inl e \<Rightarrow> False
    | Inr (h', c') \<Rightarrow> size_core h' c' = 7 \<and> get_core_type c' = 1 \<and> term_ok h' c') \<and>
   (case set_size True example_heap zero_core 3 of
      Inl e \<Rightarrow> False
    | Inr (h', c') \<Rightarrow> size_core h' c' = 3 \<and> term_ok h' c')"
proof -
  have r: "reachable True (example_heap, zero_core)"
    using r_empty[of True example_heap] by (simp add: construct_empty_def)
  note t = terminator_after_mutation[OF r]
  have "\<exists>h' c'. apply_op True (Append [1, 2, 3, 4, 5, 6, 7]) (example_heap, zero_core) = Inr (h', c')
      \<and> size_core h' c' = 7 \<and> get_core_type c' = 1"
    by (simp add: eval_defs del: bindE_eq_Inr)
  then obtain h1 c1 where
    a: "apply_op True (Append [1, 2, 3, 4, 5, 6, 7]) (example_heap, zero_core) = Inr (h1, c1)"
    "size_core h1 c1 = 7" "get_core_type c1 = 1" by blast
  have "\<exists>h' c'. set_size True example_heap zero_core 3 = Inr (h', c') \<and> size_core h' c' = 3"
    by (simp add: set_size_def eval_defs del: bindE_eq_Inr)
  then obtain h2 c2 where
    b: "set_size True example_heap zero_core 3 = Inr (h2, c2)" "size_core h2 c2 = 3" by blast
  have t1: "term_ok h1 c1" using t a(1) by blast
  have t2: "term_ok h2 c2" using t b(1) by blast
  have t0: "term_ok example_heap zero_core" using t by blast
  show ?thesis using r t0 t1 t2 a b by simp
qed

lemma construct_from_total:
  assumes no: "length bs + 8 + term_size nt + 7 < 2 ^ 32"
  shows "\<exists>h' c'. construct_from nt h bs = Inr (h', c')"
proof -
  let ?m = "length bs"
  have m: "?m < 2 ^ 32" using no by simp
  from initial_allocate_total[OF m no] obtain h1 c1 where
    ia: "initial_allocate nt h (calculate_new_buffer_size nt ?m) ?m = Inr (h1, c1)"
    and room: "?m + term_size nt \<le> data_limit h1 c1" by blast
  have s1: "shape nt h1 c1" using initial_allocate_ok[OF ia m] by simp
  have "0 + ?m \<le> data_limit h1 c1" using room by simp
  from store_total[OF s1 this] obtain h2 c2 where
    st: "store h1 c1 0 ?m (\<lambda>i. bs ! i) = Inr (h2, c2)" by blast
  have "construct_from nt h bs = Inr (h2, c2)"
    using ia st by (simp add: construct_from_def initial_allocate_size_def u32_id[OF m])
  then show ?thesis by blast
qed

text \<open>
  C7. Round trip: constructing a string from a byte sequence whose length is one of
  0, 1, 6, 7, 8, 255, 256, 257, 16383, 16384, 1000000 succeeds, and reading it back
  through \<^verbatim>\<open>(data(), size())\<close> gives exactly the original bytes and the original length,
  under both terminator policies and from any heap.
\<close>

theorem construct_round_trip:
  assumes "length bs \<in> {0, 1, 6, 7, 8, 255, 256, 257, 16383, 16384, 1000000}"
  shows "\<exists>h' c'. construct_from nt h bs = Inr (h', c') \<and> string_bytes h' c' = bs \<and>
    size_core h' c' = length bs"
proof -
  have "length bs \<le> 1000000" using assms by auto
  then have "length bs + 8 + term_size nt + 7 < 2 ^ 32" by (simp add: term_size_def)
  from construct_from_total[OF this] obtain h' c' where
    c: "construct_from nt h bs = Inr (h', c')" by blast
  from construct_from_ok[OF c] c show ?thesis by blast
qed

theorem construct_round_trip_witness:
  "length [104, 101, 108, 108, 111, 33, 0, 7 :: byte]
     \<in> {0, 1, 6, 7, 8, 255, 256, 257, 16383, 16384, 1000000} \<and>
   (\<exists>h' c'. construct_from True example_heap [104, 101, 108, 108, 111, 33, 0, 7] = Inr (h', c') \<and>
      string_bytes h' c' = [104, 101, 108, 108, 111, 33, 0, 7] \<and> size_core h' c' = 8 \<and>
      get_core_type c' = 1)"
proof -
  have l: "length [104, 101, 108, 108, 111, 33, 0, 7 :: byte]
     \<in> {0, 1, 6, 7, 8, 255, 256, 257, 16383, 16384, 1000000}" by simp
  from construct_round_trip[OF l, of True example_heap] obtain h' c' where
    c: "construct_from True example_heap [104, 101, 108, 108, 111, 33, 0, 7] = Inr (h', c')"
    "string_bytes h' c' = [104, 101, 108, 108, 111, 33, 0, 7]" "size_core h' c' = 8"
    by auto
  have "get_core_type c' = 1"
    using construct_from_ok[OF c(1)]
    by (simp add: calculate_new_buffer_size_def internal_buffer_size_def max_short_buffer_size_def)
  then show ?thesis using l c by blast
qed

text \<open>
  C6. In every reachable state \<^verbatim>\<open>shrink_to_fit()\<close> returns, never increases
  \<^verbatim>\<open>capacity()\<close>, changes neither \<^verbatim>\<open>size()\<close> nor the stored bytes, and leaves the
  string in an equal or lower tier.
\<close>

theorem shrink_to_fit_frame:
  assumes "reachable nt (h, c)"
  shows "\<exists>h' c'. shrink_to_fit nt h c = Inr (h', c') \<and>
    capacity_core nt h' c' \<le> capacity_core nt h c \<and> size_core h' c' = size_core h c \<and>
    string_bytes h' c' = string_bytes h c \<and> get_core_type c' \<le> get_core_type c"
proof -
  have w: "wf nt h c" using reachable_wf[OF assms] by simp
  from shrink_to_fit_ok[OF w] show ?thesis by blast
qed

theorem shrink_to_fit_frame_witness:
  "\<exists>h c h' c'. apply_op True (Reserve 100) (example_heap, zero_core) = Inr (h, c) \<and>
     reachable True (h, c) \<and> get_core_type c = 1 \<and> capacity_core True h c = 103 \<and>
     shrink_to_fit True h c = Inr (h', c') \<and> get_core_type c' = 0 \<and>
     capacity_core True h' c' = 6 \<and> capacity_core True h' c' \<le> capacity_core True h c \<and>
     size_core h' c' = size_core h c \<and> string_bytes h' c' = string_bytes h c"
proof -
  have "\<exists>h c. apply_op True (Reserve 100) (example_heap, zero_core) = Inr (h, c) \<and>
     get_core_type c = 1 \<and> capacity_core True h c = 103 \<and>
     (\<exists>h' c'. shrink_to_fit True h c = Inr (h', c') \<and> get_core_type c' = 0 \<and>
        capacity_core True h' c' = 6)"
    by (simp add: eval_reserve eval_defs del: bindE_eq_Inr)
  then obtain h c h' c' where
    a: "apply_op True (Reserve 100) (example_heap, zero_core) = Inr (h, c)"
    "get_core_type c = 1" "capacity_core True h c = 103"
    and b: "shrink_to_fit True h c = Inr (h', c')" "get_core_type c' = 0"
    "capacity_core True h' c' = 6"
    by blast
  have r0: "reachable True (example_heap, zero_core)"
    using r_empty[of True example_heap] by (simp add: construct_empty_def)
  have r: "reachable True (h, c)" by (rule r_op[OF r0 _ a(1)]) simp
  from shrink_to_fit_frame[OF r] b(1) have
    "capacity_core True h' c' \<le> capacity_core True h c \<and> size_core h' c' = size_core h c \<and>
     string_bytes h' c' = string_bytes h c" by auto
  then show ?thesis using a b r by blast
qed

lemma release_keeps:
  assumes "wf nt h gone" "is_external gone \<longrightarrow> get_buffer_ptr this \<noteq> get_buffer_ptr gone"
  shows "wf nt (release h this) gone" "size_core (release h this) gone = size_core h gone"
    "string_bytes (release h this) gone = string_bytes h gone"
    "capacity_core nt (release h this) gone = capacity_core nt h gone"
proof -
  have c: "is_external gone \<Longrightarrow>
      cells (release h this) (get_buffer_ptr gone) = cells h (get_buffer_ptr gone)"
    using assms(2) by (auto simp: release_def free_def)
  have n: "next_free h \<le> next_free (release h this)" by (simp add: release_def free_def)
  show "wf nt (release h this) gone" by (rule wf_cong[OF c n assms(1)])
  note v = view_cong[OF c wf_shape[OF assms(1)]]
  show "size_core (release h this) gone = size_core h gone" by (rule v(1))
  show "string_bytes (release h this) gone = string_bytes h gone"
    by (simp add: string_bytes_def v(1) v(2))
  show "capacity_core nt (release h this) gone = capacity_core nt h gone" by (rule v(4))
qed

text \<open>
  C9. Moving from a string, by move construction or by move assignment, gives the
  destination the core of the source, and with it the external buffer if there is one,
  which stays allocated and reads as before; the core of the source is zeroed, so that
  the source has size 0, is in the Internal tier and holds no pointer. For the move
  assignment the two strings are distinct objects, which own distinct buffers.
\<close>

theorem move_leaves_source_empty:
  assumes "reachable nt (h, gone)"
    and "is_external gone \<longrightarrow> get_buffer_ptr this \<noteq> get_buffer_ptr gone"
  shows "(case move_construct h gone of (h', new, gone') \<Rightarrow>
      h' = h \<and> new = gone \<and> gone' = zero_core \<and> size_core h' gone' = 0 \<and>
      get_core_type gone' = 0 \<and> \<not> is_external gone' \<and> string_bytes h' gone' = []) \<and>
    (case move_assign h this gone of (h', new, gone') \<Rightarrow>
      h' = release h this \<and> new = gone \<and> wf nt h' new \<and>
      size_core h' new = size_core h gone \<and> string_bytes h' new = string_bytes h gone \<and>
      capacity_core nt h' new = capacity_core nt h gone \<and>
      gone' = zero_core \<and> size_core h' gone' = 0 \<and>
      get_core_type gone' = 0 \<and> \<not> is_external gone' \<and> string_bytes h' gone' = [])"
proof -
  have w: "wf nt h gone" using reachable_wf[OF assms(1)] by simp
  note k = release_keeps[OF w assms(2)]
  have z: "size_core h0 zero_core = 0" "get_core_type zero_core = 0"
    "\<not> is_external zero_core" "string_bytes h0 zero_core = []" for h0
    by (simp_all add: zero_core_def is_external_def string_bytes_def)
  show ?thesis
    using k z by (simp add: move_construct_def move_assign_def move_core_def)
qed

theorem move_leaves_source_empty_witness:
  "\<exists>h gone. apply_op True (Append [1, 2, 3, 4, 5, 6, 7]) (example_heap, zero_core) = Inr (h, gone) \<and>
     reachable True (h, gone) \<and> is_external gone \<and> get_buffer_ptr gone = 4096 \<and>
     get_buffer_ptr zero_core \<noteq> get_buffer_ptr gone \<and>
     move_construct h gone = (h, gone, zero_core) \<and>
     move_assign h zero_core gone = (h, gone, zero_core) \<and>
     string_bytes h gone = [1, 2, 3, 4, 5, 6, 7] \<and>
     size_core h zero_core = 0 \<and> get_core_type zero_core = 0 \<and> \<not> is_external zero_core"
proof -
  have "\<exists>h gone. apply_op True (Append [1, 2, 3, 4, 5, 6, 7]) (example_heap, zero_core) = Inr (h, gone) \<and>
     is_external gone \<and> get_buffer_ptr gone = 4096 \<and> string_bytes h gone = [1, 2, 3, 4, 5, 6, 7]"
    by (simp add: eval_defs string_bytes_def upt_conv_Cons del: bindE_eq_Inr upt_Suc)
  then obtain h gone where
    a: "apply_op True (Append [1, 2, 3, 4, 5, 6, 7]) (example_heap, zero_core) = Inr (h, gone)"
    "is_external gone" "get_buffer_ptr gone = 4096" "string_bytes h gone = [1, 2, 3, 4, 5, 6, 7]"
    by blast
  have r0: "reachable True (example_heap, zero_core)"
    using r_empty[of True example_heap] by (simp add: construct_empty_def)
  have r: "reachable True (h, gone)" by (rule r_op[OF r0 _ a(1)]) simp
  have d: "get_buffer_ptr zero_core \<noteq> get_buffer_ptr gone" using a(3) by (simp add: zero_core_def)
  then have d': "is_external gone \<longrightarrow> get_buffer_ptr zero_core \<noteq> get_buffer_ptr gone" by simp
  have rel: "release h zero_core = h" by (simp add: release_def is_external_def zero_core_def)
  have m: "move_construct h gone = (h, gone, zero_core) \<and>
     move_assign h zero_core gone = (h, gone, zero_core) \<and>
     size_core h zero_core = 0 \<and> get_core_type zero_core = 0 \<and> \<not> is_external zero_core"
    using move_leaves_source_empty[OF r d'] rel
    by (auto simp: move_construct_def move_assign_def move_core_def)
  show ?thesis using a r d m by blast
qed

text \<open>
  C10. The checked accessors \<^verbatim>\<open>at(pos)\<close> and \<^verbatim>\<open>operator[](pos)\<close> throw
  \<^verbatim>\<open>std::out_of_range\<close> exactly when \<^verbatim>\<open>pos >= size()\<close>, also at \<^verbatim>\<open>pos == size()\<close> where
  the terminator policy has put a zero byte; otherwise they return the byte at
  position \<open>pos\<close>. They do not write: the state is not among their results.
\<close>

theorem at_out_of_range:
  "(at_pos h c pos = Inl OutOfRange \<longleftrightarrow> pos \<ge> size_core h c) \<and>
   (subscript h c pos = Inl OutOfRange \<longleftrightarrow> pos \<ge> size_core h c) \<and>
   (pos < size_core h c \<longrightarrow>
      at_pos h c pos = Inr (string_bytes h c ! pos) \<and>
      subscript h c pos = Inr (string_bytes h c ! pos)) \<and>
   at_pos h c (size_core h c) = Inl OutOfRange \<and>
   subscript h c (size_core h c) = Inl OutOfRange \<and>
   (reachable True (h, c) \<longrightarrow>
      buffer_of h c (size_core h c) = 0 \<and> at_pos h c (size_core h c) = Inl OutOfRange \<and>
      subscript h c (size_core h c) = Inl OutOfRange)"
proof -
  have t: "buffer_of h c (size_core h c) = 0" if "reachable True (h, c)"
    using reachable_wf[OF that] by (simp add: wf_iff_shape term_ok_def)
  show ?thesis using t by (auto simp: at_pos_def subscript_def string_bytes_def)
qed

theorem at_out_of_range_witness:
  "\<exists>h c. apply_op True (Append [1, 2, 3, 4, 5, 6, 7]) (example_heap, zero_core) = Inr (h, c) \<and>
     reachable True (h, c) \<and> size_core h c = 7 \<and> string_bytes h c = [1, 2, 3, 4, 5, 6, 7] \<and>
     at_pos h c 2 = Inr 3 \<and> subscript h c 6 = Inr 7 \<and>
     buffer_of h c 7 = 0 \<and> at_pos h c 7 = Inl OutOfRange \<and> subscript h c 7 = Inl OutOfRange \<and>
     at_pos h c 8 = Inl OutOfRange"
proof -
  have "\<exists>h c. apply_op True (Append [1, 2, 3, 4, 5, 6, 7]) (example_heap, zero_core) = Inr (h, c) \<and>
     size_core h c = 7 \<and> string_bytes h c = [1, 2, 3, 4, 5, 6, 7]"
    by (simp add: eval_defs string_bytes_def upt_conv_Cons del: bindE_eq_Inr upt_Suc)
  then obtain h c where
    a: "apply_op True (Append [1, 2, 3, 4, 5, 6, 7]) (example_heap, zero_core) = Inr (h, c)"
    "size_core h c = 7" "string_bytes h c = [1, 2, 3, 4, 5, 6, 7]"
    by blast
  have r0: "reachable True (example_heap, zero_core)"
    using r_empty[of True example_heap] by (simp add: construct_empty_def)
  have r: "reachable True (h, c)" by (rule r_op[OF r0 _ a(1)]) simp
  have "at_pos h c 2 = Inr 3" using at_out_of_range[of h c 2] a(2,3) by simp
  moreover have "subscript h c 6 = Inr 7" using at_out_of_range[of h c 6] a(2,3) by simp
  moreover have "buffer_of h c 7 = 0 \<and> at_pos h c 7 = Inl OutOfRange \<and>
      subscript h c 7 = Inl OutOfRange"
    using at_out_of_range[of h c 7] a(2) r by simp
  moreover have "at_pos h c 8 = Inl OutOfRange" using at_out_of_range[of h c 8] a(2) by simp
  ultimately show ?thesis using a r by blast
qed

lemma median_idle_terminated:
  assumes "reachable True (h, c)"
  shows "median_idle_ok True h c"
proof -
  have w: "wf True h c" using reachable_wf[OF assms] by simp
  show ?thesis
  proof (cases c)
    case (MedianCore p i)
    from w MedianCore obtain b where b: "cells h (p - 8) = Some b"
      "hdr_capacity b \<le> 16392" "hdr_size b + 8 + 1 \<le> hdr_capacity b"
      "i = (hdr_capacity b - (hdr_size b + 8 + 1)) mod 2 ^ 14"
      by (auto simp: term_size_def split: option.splits)
    have "hdr_capacity b - (hdr_size b + 8 + 1) < 2 ^ 14" using b(2) by simp
    then have i: "i = hdr_capacity b - (hdr_size b + 8 + 1)" using b(4) by simp
    have s: "sub32 (hdr_capacity b) (hdr_size b + 1 + 8) = hdr_capacity b - (hdr_size b + 1 + 8)"
      by (rule sub32_exact) (use b(2,3) in simp_all)
    show ?thesis
      using MedianCore b(1) i s
      by (simp add: median_idle_ok_def get_idle_capacity_from_buffer_header_def
          capacity_from_buffer_header_def size_from_buffer_header_def header_def block_at_def)
  qed (simp_all add: median_idle_ok_def)
qed







text \<open>
  Below the 32-bit wrap of the selector a reserve returns, and its result has room for
  the request, the old size and the old bytes; a request within the capacity changes
  nothing.
\<close>

lemma alloc_total:
  assumes ni: "internal_buffer_size nt < m" and no: "m + 8 + term_size nt + 7 < 2 ^ 32"
  shows "\<exists>h1 c1. allocate_new_external_buffer nt h (calculate_new_buffer_size nt m) old
           = Inr (h1, c1) \<and>
         m + term_size nt + data_offset c1 \<le> buffer_size (calculate_new_buffer_size nt m)"
proof (cases "core_type (calculate_new_buffer_size nt m)")
  case Internal
  then show ?thesis using ni by (simp add: select_Internal)
next
  case Short
  note sb = select_Short_bounds[OF Short]
  from Short sb(4) show ?thesis
    by (auto simp: allocate_new_external_buffer_def malloc_def Let_def split: prod.splits)
next
  case Median
  note sb = select_Median_bounds[OF Median]
  from Median sb(1,4) show ?thesis
    by (auto simp: allocate_new_external_buffer_def malloc_def write_header_def Let_def
        split: prod.splits)
next
  case Long
  have e: "buffer_size (calculate_new_buffer_size nt m) = (m + 8 + term_size nt + 7) div 8 * 8"
    by (rule select_Long(4)[OF Long no])
  have g: "m + 8 + term_size nt \<le> (m + 8 + term_size nt + 7) div 8 * 8"
    using round8_bounds(1)[of "m + 8 + term_size nt"] by simp
  from Long e g show ?thesis
    by (auto simp: allocate_new_external_buffer_def malloc_def write_header_def Let_def
        split: prod.splits)
qed


lemma reserve_ok:
  assumes wf: "wf nt h c" and no: "n + 8 + term_size nt + 7 < 2 ^ 32"
    and ni: "internal_buffer_size nt < n \<or> n \<le> capacity_core nt h c"
  shows "\<exists>h' c'. reserve nt h c n = Inr (h', c') \<and> wf nt h' c' \<and>
    n \<le> capacity_core nt h' c' \<and> size_core h' c' = size_core h c \<and>
    string_bytes h' c' = string_bytes h c \<and>
    (n \<le> capacity_core nt h c \<longrightarrow> h' = h \<and> c' = c)"
proof (cases "n > capacity_core nt h c")
  case False
  then have "reserve nt h c n = Inr (h, c)"
    by (simp add: reserve_def buffer_reserve_def wf_capacity[OF wf])
  then show ?thesis using wf False by simp
next
  case True
  let ?old = "size_core h c"
  let ?T = "calculate_new_buffer_size nt n"
  have big: "internal_buffer_size nt < n" using ni True by simp
  have old: "?old + term_size nt \<le> capacity_core nt h c + term_size nt"
    using wf_fits[OF wf] wf_capacity(1)[OF wf] by simp
  then have oldn: "?old < n" using True by simp
  from alloc_total[OF big no, of h ?old] obtain h1 c1 where
    al: "allocate_new_external_buffer nt h ?T ?old = Inr (h1, c1)"
    and room: "n + term_size nt + data_offset c1 \<le> buffer_size ?T" by blast
  note a = alloc_ext[OF al wf_size_less[OF wf]]
  have s1: "shape nt h1 c1" using a by simp
  have l1: "data_limit h1 c1 = buffer_size ?T - data_offset c1" using a by simp
  have r1: "n + term_size nt \<le> data_limit h1 c1" using room l1 by simp
  have "0 + ?old \<le> data_limit h1 c1" using r1 oldn by simp
  from store_total[OF s1 this] obtain h2 c2 where
    cp0: "store h1 c1 0 ?old (buffer_of h c) = Inr (h2, c2)" by blast
  have cp: "(if True then store h1 c1 0 ?old (buffer_of h c) else Inr (h1, c1)) = Inr (h2, c2)"
    using cp0 by simp
  note s2 = store_ext[OF s1 cp0]
  have r2: "?old + 1 \<le> data_limit h2 c2" using s2(4) r1 oldn by simp
  from store_total[OF s2(1) r2] obtain h2' c2' where
    t0: "store h2 c2 ?old 1 (\<lambda>_. 0) = Inr (h2', c2')" by blast
  obtain h3 c3 where
    tw: "(if nt \<and> True \<and> True then store h2 c2 ?old 1 (\<lambda>_. 0) else Inr (h2, c2)) = Inr (h3, c3)"
    using t0 by (cases nt) auto
  have br: "buffer_reserve nt True True h c n = Inr (release h3 c, c3)"
    using True al cp0 tw by (simp add: buffer_reserve_def wf_capacity[OF wf])
  note r = realloc_steps[OF wf al cp tw]
  note k = buffer_reserve_ok[OF wf br]
  have w': "wf nt (release h3 c) c3" using k by simp
  have sz: "size_core (release h3 c) c3 = ?old" using k by simp
  have bt: "\<forall>i < ?old. buffer_of (release h3 c) c3 i = buffer_of h c i" using k by simp
  have off: "data_offset c3 = data_offset c1"
    using r a by (cases c3; cases c1; simp)
  have lim: "data_limit (release h3 c) c3 = buffer_size ?T - data_offset c1"
    using r off by simp
  have cap: "n \<le> capacity_core nt (release h3 c) c3"
    using wf_capacity(1)[OF w'] lim room by simp
  have bytes: "string_bytes (release h3 c) c3 = string_bytes h c"
    using bt by (simp add: string_bytes_def sz)
  show ?thesis using br w' cap sz bytes True by (simp add: reserve_def)
qed

text \<open>
  C3. \<^verbatim>\<open>reserve(n)\<close> is to leave \<^verbatim>\<open>capacity() >= n\<close> for every \<open>n\<close> in the range of the
  Long tier, whose upper end \<^verbatim>\<open>max_long_buffer_size()\<close> is 4294967286 with the terminator.
  At that \<open>n\<close> the selector adds the 9 bytes of header and terminator, rounds 4294967295
  up to \<open>2 ^ 32\<close> and casts it to \<^verbatim>\<open>size_type\<close>: the buffer size is 0. The reserve
  allocates 0 bytes and writes the 8-byte header into them.
\<close>

theorem reserve_at_max_long_faults:
  "4294967286 \<le> max_long_buffer_size True \<and>
   calculate_new_buffer_size True 4294967286 = \<lparr>buffer_size = 0, core_type = Long\<rparr> \<and>
   apply_op True (Reserve 4294967286) (construct_empty example_heap) = Inl MemoryFault"
  by (simp add: eval_more max_long_buffer_size_def del: bindE_eq_Inr)

text \<open>
  C8. In the Median tier the cached 14-bit idle capacity is to equal the idle capacity
  computed from the header. With \<^verbatim>\<open>NullTerminated = false\<close>, \<^verbatim>\<open>reserve(16383)\<close> on an
  empty string allocates a Median buffer whose header says capacity 16392 and size 0:
  the idle capacity computed from the header is 16384, the cached field reads 0, and
  \<^verbatim>\<open>set_size\<close> stores the same 0 again.
\<close>

theorem median_idle_diverges:
  "\<exists>h c. apply_op False (Reserve 16383) (construct_empty example_heap) = Inr (h, c) \<and>
     get_core_type c = 2 \<and> capacity_from_buffer_header h c = 16392 \<and>
     size_from_buffer_header h c = 0 \<and>
     get_idle_capacity_from_buffer_header False h c = 16384 \<and>
     idle_or_ignore c = 0 \<and> idle_capacity False h c = 0 \<and>
     (\<exists>h' c'. set_size False h c 0 = Inr (h', c') \<and>
        get_idle_capacity_from_buffer_header False h' c' = 16384 \<and> idle_or_ignore c' = 0)"
  by (simp add: eval_more del: bindE_eq_Inr)

text \<open>
  C5. When the idle capacity is insufficient, \<^verbatim>\<open>allocate_more\<close> is to choose the new
  buffer from \<open>(size + extra) * 1.5\<close> and keep the old contents. Two inputs on which it
  does not. With \<^verbatim>\<open>NullTerminated = false\<close>, after \<^verbatim>\<open>reserve(16383)\<close> on an empty
  string the cached idle capacity reads 0; one more byte makes the selector answer Internal
  for \<open>(0 + 1) * 1.5 = 1\<close>, and \<^verbatim>\<open>allocate_new_external_buffer\<close> runs into
  \<^verbatim>\<open>__builtin_unreachable()\<close>. With \<^verbatim>\<open>NullTerminated = true\<close>, a string of 3221225471
  bytes is full; one more byte asks for \<open>3221225472 * 1.5 = 4831838208\<close>, whose buffer
  size 4831838224 is cast to \<^verbatim>\<open>size_type\<close> as 536870928, and the old 3221225471 bytes
  are copied into that buffer.
\<close>

theorem growth_loses_contents:
  "(\<exists>h c. apply_op False (Reserve 16383) (construct_empty example_heap) = Inr (h, c) \<and>
      size_core h c = 0 \<and> idle_capacity False h c = 0 \<and>
      calculate_new_buffer_size_growth False (u32 (size_core h c + 1)) =
        \<lparr>buffer_size = 7, core_type = Internal\<rparr> \<and>
      allocate_more False False h c 1 = Inl MemoryFault) \<and>
   (\<exists>h c. apply_op True (Resize 3221225471 0) (construct_empty example_heap) = Inr (h, c) \<and>
      get_core_type c = 3 \<and> size_core h c = 3221225471 \<and>
      capacity_core True h c = 3221225471 \<and> idle_capacity True h c = 0 \<and>
      calculate_new_buffer_size_growth True (u32 (size_core h c + 1)) =
        \<lparr>buffer_size = 536870928, core_type = Long\<rparr> \<and>
      allocate_more True False h c 1 = Inl MemoryFault \<and>
      apply_op True (Append [1]) (h, c) = Inl MemoryFault)"
  by (simp add: eval_more internal_buffer_size_def growth_big del: bindE_eq_Inr)

end
